theory Spec2Isabelle
  imports Complex_Main "HOL-Library.Multiset"
begin

section \<open>Card model\<close>

text \<open>
  The simulator of \<^verbatim>\<open>mana_value_sim.py\<close> represents every card as a dictionary with an
  \<^verbatim>\<open>id\<close> (a fresh \<^verbatim>\<open>uuid4\<close>) and a \<^verbatim>\<open>card_type\<close> tag. The tag becomes the constructor
  of a datatype; the remaining keys become the constructor's arguments. The identifier is
  kept, because \<^verbatim>\<open>list.remove\<close> compares whole dictionaries.

  Python integers are unbounded, so the parameters are of type \<open>int\<close>. All parameters
  are typed here, hence the \<^verbatim>\<open>isinstance\<close> checks of the source always pass and no
  \<^verbatim>\<open>TypeError\<close> branch appears.
\<close>

type_synonym uuid = nat

record target_card =
  card_id :: uuid
  mana_value :: int
  on_color_pips :: int
  off_color_pips :: int
  generic :: int

datatype card =
    TargetCard target_card
  | Land uuid bool
  | OtherCard uuid

text \<open>
  The exceptions a trial can raise. A \<^verbatim>\<open>ValueError\<close> carries the message of the source;
  where the source formats numbers into the message, the text is the template with its
  placeholders.
\<close>

datatype error =
    ValueError string
  | StopIteration
  | IndexError
  | OverflowError

text \<open>The module constants.\<close>

definition DECK_SIZE :: int where
  "DECK_SIZE = 40"

definition LAND_COUNT :: int where
  "LAND_COUNT = 17"

text \<open>
  The tests the source writes on a card:
  \<^verbatim>\<open>card["card_type"] == "land"\<close>,
  \<^verbatim>\<open>card["card_type"] == "land" and card["is_on_color"]\<close>,
  \<^verbatim>\<open>card["card_type"] == "land" and not card["is_on_color"]\<close>,
  \<^verbatim>\<open>card["card_type"] == "other_card"\<close> and
  \<^verbatim>\<open>card.get("is_on_color", False)\<close>.
\<close>

fun is_land :: "card \<Rightarrow> bool" where
  "is_land (Land _ _) = True"
| "is_land _ = False"

fun is_on_color_land :: "card \<Rightarrow> bool" where
  "is_on_color_land (Land _ b) = b"
| "is_on_color_land _ = False"

fun is_off_color_land :: "card \<Rightarrow> bool" where
  "is_off_color_land (Land _ b) = (\<not> b)"
| "is_off_color_land _ = False"

fun is_other_card :: "card \<Rightarrow> bool" where
  "is_other_card (OtherCard _) = True"
| "is_other_card _ = False"

fun is_target_card :: "card \<Rightarrow> bool" where
  "is_target_card (TargetCard _) = True"
| "is_target_card _ = False"

fun get_is_on_color :: "card \<Rightarrow> bool" where
  "get_is_on_color (Land _ b) = b"
| "get_is_on_color _ = False"

text \<open>\<^verbatim>\<open>sum(1 for card in cards if p(card))\<close>\<close>

definition count_if :: "(card \<Rightarrow> bool) \<Rightarrow> card list \<Rightarrow> nat" where
  "count_if p cards = length (filter p cards)"

subsection \<open>Constructors\<close>

text \<open>
  \<^verbatim>\<open>get_target_card\<close>: the value checks in the order of the source. The first argument
  is the identifier that \<^verbatim>\<open>uuid4()\<close> returns.
\<close>

definition get_target_card ::
  "uuid \<Rightarrow> int \<Rightarrow> int \<Rightarrow> int \<Rightarrow> int \<Rightarrow> error + target_card" where
  "get_target_card uid mv on_pips off_pips gen =
     (if mv < 1 then
        Inl (ValueError ''get_target_card(): mana_value must be at least 1.'')
      else if on_pips < 1 then
        Inl (ValueError ''get_target_card(): on_color_pips must be a positive integer.'')
      else if off_pips < 0 then
        Inl (ValueError ''get_target_card(): off_color_pips must be a non-negative integer.'')
      else if gen < 0 then
        Inl (ValueError ''get_target_card(): generic must be a non-negative integer.'')
      else if on_pips + off_pips + gen \<noteq> mv then
        Inl (ValueError ''get_target_card(): The sum of on_color_pips, off_color_pips, and generic must equal mana_value.'')
      else
        Inr \<lparr>card_id = uid, mana_value = mv, on_color_pips = on_pips,
             off_color_pips = off_pips, generic = gen\<rparr>)"

definition get_land :: "uuid \<Rightarrow> bool \<Rightarrow> card" where
  "get_land uid on_color = Land uid on_color"

definition get_other_card :: "uuid \<Rightarrow> card" where
  "get_other_card uid = OtherCard uid"

record land_split =
  on_color :: int
  off_color :: int

definition get_land_split :: "int \<Rightarrow> error + land_split" where
  "get_land_split on_color_count =
     (if on_color_count < 1 then
        Inl (ValueError ''get_land_split(): on_color_count must be a positive integer.'')
      else
        Inr \<lparr>on_color = on_color_count, off_color = LAND_COUNT - on_color_count\<rparr>)"

section \<open>Deck Builder\<close>

text \<open>
  \<^verbatim>\<open>RNG.shuffle(deck)\<close> on a Python list is the Fisher-Yates loop
  \<^verbatim>\<open>for i in reversed(range(1, n)): j = random_interval(i); x[i], x[j] = x[j], x[i]\<close>.
  The generator is a parameter \<open>pick\<close>: \<open>pick i\<close> is the number drawn at position \<open>i\<close>,
  reduced into the interval \<open>[0, i]\<close>.
\<close>

definition random_interval :: "(nat \<Rightarrow> nat) \<Rightarrow> nat \<Rightarrow> nat" where
  "random_interval pick i = pick i mod Suc i"

definition swap :: "card list \<Rightarrow> nat \<Rightarrow> nat \<Rightarrow> card list" where
  "swap x i j = x[i := x ! j, j := x ! i]"

definition shuffle :: "(nat \<Rightarrow> nat) \<Rightarrow> card list \<Rightarrow> card list" where
  "shuffle pick x = foldl (\<lambda>y i. swap y i (random_interval pick i)) x (rev [1..<length x])"

text \<open>
  \<^verbatim>\<open>get_deck\<close>. \<open>uids k\<close> is the identifier of the \<open>k\<close>-th card created;
  \<^verbatim>\<open>range(m)\<close> is empty for \<open>m \<le> 0\<close>, as \<open>[0..<nat m]\<close> is.
\<close>

definition build_deck :: "(nat \<Rightarrow> uuid) \<Rightarrow> land_split \<Rightarrow> card list" where
  "build_deck uids split =
     (let a = nat (on_color split); b = nat (off_color split) in
      map (\<lambda>k. get_land (uids k) True) [0..<a]
      @ map (\<lambda>k. get_land (uids (a + k)) False) [0..<b]
      @ map (\<lambda>k. get_other_card (uids (a + b + k))) [0..<nat (DECK_SIZE - LAND_COUNT - 1)])"

definition get_deck ::
  "(nat \<Rightarrow> nat) \<Rightarrow> (nat \<Rightarrow> uuid) \<Rightarrow> target_card \<Rightarrow> int \<Rightarrow> error + card list" where
  "get_deck pick uids target on_color_land_count =
     (if on_color_land_count < on_color_pips target then
        Inl (ValueError ''Invalid deck configuration: Not enough on-color lands: {on_color_land_count} < {on_color_pips}'')
      else if LAND_COUNT - on_color_land_count < off_color_pips target then
        Inl (ValueError ''Invalid deck configuration: Not enough off-color lands: {LAND_COUNT - on_color_land_count} < {off_color_pips}'')
      else
        (case get_land_split on_color_land_count of
           Inl e \<Rightarrow> Inl e
         | Inr split \<Rightarrow>
             (let deck = build_deck uids split in
              if int (length deck) \<noteq> DECK_SIZE - 1 then
                Inl (ValueError ''Deck size mismatch: {len(deck)} != {DECK_SIZE - 1}'')
              else Inr (shuffle pick deck))))"

text \<open>\<^verbatim>\<open>draw_n\<close>: the first \<open>n\<close> cards and the rest.\<close>

definition draw_n :: "card list \<Rightarrow> int \<Rightarrow> error + (card list \<times> card list)" where
  "draw_n deck n =
     (if n < 1 then Inl (ValueError ''Cannot draw less than 1 card.'')
      else if n > int (length deck) then Inl (ValueError ''Cannot draw {n} cards from a deck of size {len(deck)}.'')
      else Inr (take (nat n) deck, drop (nat n) deck))"

section \<open>List primitives of the source\<close>

text \<open>
  \<^verbatim>\<open>xs.remove(x)\<close> deletes the first element equal to \<open>x\<close> and raises
  \<^verbatim>\<open>ValueError\<close> when there is none; \<^verbatim>\<open>next(c for c in xs if p(c))\<close> is the first
  element satisfying \<open>p\<close> and raises \<^verbatim>\<open>StopIteration\<close> when there is none.
\<close>

definition list_remove :: "card \<Rightarrow> card list \<Rightarrow> error + card list" where
  "list_remove x xs =
     (if x \<in> set xs then Inr (remove1 x xs)
      else Inl (ValueError ''list.remove(x): x not in list''))"

definition next_card :: "(card \<Rightarrow> bool) \<Rightarrow> card list \<Rightarrow> error + card" where
  "next_card p xs = (case find p xs of None \<Rightarrow> Inl StopIteration | Some c \<Rightarrow> Inr c)"

text \<open>
  The pair \<^verbatim>\<open>c = next(card for card in hand if p(card)); hand.remove(c)\<close>, which the
  source writes three times in the trim step and three times in the land drop: the card
  found and the hand without it.
\<close>

definition take_first :: "(card \<Rightarrow> bool) \<Rightarrow> card list \<Rightarrow> error + (card \<times> card list)" where
  "take_first p hand =
     (case next_card p hand of
        Inl e \<Rightarrow> Inl e
      | Inr c \<Rightarrow> (case list_remove c hand of Inl e \<Rightarrow> Inl e | Inr hand' \<Rightarrow> Inr (c, hand')))"

section \<open>Opening hand\<close>

text \<open>
  The first part of \<^verbatim>\<open>simulate\<close>: the value checks, the target card, the deck, the six
  cards drawn and the target card appended to them. \<open>uids 0\<close> identifies the target
  card, \<open>uids (Suc k)\<close> the \<open>k\<close>-th card of the deck.
\<close>

definition deal ::
  "(nat \<Rightarrow> nat) \<Rightarrow> (nat \<Rightarrow> uuid) \<Rightarrow> int \<Rightarrow> int \<Rightarrow> int \<Rightarrow> int
     \<Rightarrow> error + (target_card \<times> card list \<times> card list)" where
  "deal pick uids mv on_pips off_pips on_color_land_count =
     (if mv < 1 then Inl (ValueError ''Mana value must be at least 1.'')
      else if on_pips < 0 then Inl (ValueError ''On-color pips must be a non-negative integer.'')
      else if off_pips < 0 then Inl (ValueError ''Off-color pips must be a non-negative integer.'')
      else if on_color_land_count < 1 then Inl (ValueError ''On-color land count must be at least 1.'')
      else if on_color_land_count > LAND_COUNT then
        Inl (ValueError ''On-color land count must be at most {LAND_COUNT}, got {on_color_land_count}.'')
      else
        (let gen = mv - on_pips - off_pips in
         if gen < 0 then Inl (ValueError ''Mana value is too low for the given pips.'')
         else if gen + on_pips + off_pips \<noteq> mv then Inl (ValueError ''Mana value mismatch: {generic} + {on_color_pips} + {off_color_pips} != {mana_value}'')
         else
           (case get_target_card (uids 0) mv on_pips off_pips gen of
              Inl e \<Rightarrow> Inl e
            | Inr target \<Rightarrow>
                (case get_deck pick (\<lambda>k. uids (Suc k)) target on_color_land_count of
                   Inl e \<Rightarrow> Inl e
                 | Inr deck \<Rightarrow>
                     (case draw_n deck 6 of
                        Inl e \<Rightarrow> Inl e
                      | Inr (hand, deck') \<Rightarrow> Inr (target, hand @ [TargetCard target], deck'))))))"

section \<open>Mulligan Resolver\<close>

text \<open>
  One mulligan, the four statements both mulligan branches of the source share: remove the
  target card from the hand, put the rest at the bottom of the deck, draw six, append the
  target card.
\<close>

definition mulligan ::
  "target_card \<Rightarrow> card list \<Rightarrow> card list \<Rightarrow> error + (card list \<times> card list)" where
  "mulligan target hand deck =
     (case list_remove (TargetCard target) hand of
        Inl e \<Rightarrow> Inl e
      | Inr rest \<Rightarrow>
          (case draw_n (deck @ rest) 6 of
             Inl e \<Rightarrow> Inl e
           | Inr (hand', deck') \<Rightarrow> Inr (hand' @ [TargetCard target], deck')))"

text \<open>
  The mulligan loop \<^verbatim>\<open>while True\<close> with its four branches; the result is the hand, the
  deck and \<^verbatim>\<open>mulligan_count\<close> at the \<^verbatim>\<open>break\<close>.
\<close>

function mulligan_loop ::
  "target_card \<Rightarrow> card list \<Rightarrow> card list \<Rightarrow> nat \<Rightarrow> error + (card list \<times> card list \<times> nat)" where
  "mulligan_loop target hand deck mulligan_count =
     (if (mulligan_count = 0 \<or> mulligan_count = 1) \<and> count_if is_on_color_land hand = 0 then
        (case mulligan target hand deck of
           Inl e \<Rightarrow> Inl e
         | Inr (hand', deck') \<Rightarrow> mulligan_loop target hand' deck' (mulligan_count + 1))
      else if mulligan_count = 2
              \<and> count_if is_on_color_land hand + count_if is_off_color_land hand = 0 then
        (case mulligan target hand deck of
           Inl e \<Rightarrow> Inl e
         | Inr (hand', deck') \<Rightarrow> mulligan_loop target hand' deck' (mulligan_count + 1))
      else if mulligan_count = 3 then Inr (hand, deck, mulligan_count)
      else Inr (hand, deck, mulligan_count))"
  by pat_completeness auto
termination
  by (relation "measure (\<lambda>(target, hand, deck, mulligan_count). 3 - mulligan_count)") auto

text \<open>
  The trim loop. When the hand holds no filler card and no land while cards are still owed,
  no branch of the source changes anything and the \<^verbatim>\<open>while True\<close> never exits: the
  function is partial, and \<open>None\<close> is the loop that does not return.
\<close>

partial_function (option) trim_loop ::
  "card list \<Rightarrow> card list \<Rightarrow> nat \<Rightarrow> (error + (card list \<times> card list)) option" where
  "trim_loop hand to_return mulligan_count =
     (if mulligan_count = 0 then Some (Inr (hand, to_return))
      else if length to_return = mulligan_count then Some (Inr (hand, to_return))
      else if list_ex is_other_card hand then
        (case take_first is_other_card hand of
           Inl e \<Rightarrow> Some (Inl e)
         | Inr (c, hand') \<Rightarrow> trim_loop hand' (to_return @ [c]) mulligan_count)
      else if list_ex is_off_color_land hand then
        (case take_first is_off_color_land hand of
           Inl e \<Rightarrow> Some (Inl e)
         | Inr (c, hand') \<Rightarrow> trim_loop hand' (to_return @ [c]) mulligan_count)
      else if list_ex is_on_color_land hand then
        (case take_first is_on_color_land hand of
           Inl e \<Rightarrow> Some (Inl e)
         | Inr (c, hand') \<Rightarrow> trim_loop hand' (to_return @ [c]) mulligan_count)
      else trim_loop hand to_return mulligan_count)"

declare trim_loop.simps [code]

text \<open>
  Mulligans, trim, \<^verbatim>\<open>deck.extend(to_return)\<close> and the two size checks. The result is the
  kept hand, the library and \<^verbatim>\<open>mulligan_count\<close>.
\<close>

definition resolve_mulligans ::
  "target_card \<Rightarrow> card list \<Rightarrow> card list \<Rightarrow> (error + (card list \<times> card list \<times> nat)) option" where
  "resolve_mulligans target hand deck =
     (case mulligan_loop target hand deck 0 of
        Inl e \<Rightarrow> Some (Inl e)
      | Inr (hand1, deck1, mulligan_count) \<Rightarrow>
          (case trim_loop hand1 [] mulligan_count of
             None \<Rightarrow> None
           | Some (Inl e) \<Rightarrow> Some (Inl e)
           | Some (Inr (hand2, to_return)) \<Rightarrow>
               (let deck2 = deck1 @ to_return in
                if int (length hand2) \<noteq> 7 - int mulligan_count then
                  Some (Inl (ValueError ''Hand size mismatch: {len(hand)} != {7 - mulligan_count}''))
                else if int (length deck2) \<noteq> DECK_SIZE - int (length hand2) then
                  Some (Inl (ValueError ''Deck size mismatch: {len(deck)} != {DECK_SIZE - len(hand)} ({DECK_SIZE} - {len(hand)})''))
                else Some (Inr (hand2, deck2, mulligan_count)))))"

section \<open>Turn Engine\<close>

text \<open>
  The land drop of one turn, on the hand and the board: the three prioritised branches
  under \<^verbatim>\<open>if have_lands is True\<close>. The flag \<^verbatim>\<open>land_drop\<close> is \<open>False\<close> when the
  branches are tested (it was set so at the top of the iteration), so the conjunct
  \<^verbatim>\<open>land_drop is False\<close> holds in each test; the value returned is the flag afterwards.
\<close>

definition play_land ::
  "(card \<Rightarrow> bool) \<Rightarrow> card list \<Rightarrow> card list \<Rightarrow> error + (card list \<times> card list \<times> bool)" where
  "play_land p hand board =
     (case take_first p hand of
        Inl e \<Rightarrow> Inl e
      | Inr (land, hand') \<Rightarrow> Inr (hand', board @ [land], True))"

definition land_drop_step ::
  "target_card \<Rightarrow> card list \<Rightarrow> card list \<Rightarrow> error + (card list \<times> card list \<times> bool)" where
  "land_drop_step target hand board =
     (let have_lands = list_ex is_land hand;
          hand_has_on_color_land = list_ex is_on_color_land hand;
          hand_has_off_color_land = list_ex is_off_color_land hand;
          board_on_color_count = int (count_if get_is_on_color board);
          board_off_color_count = int (count_if (\<lambda>c. \<not> get_is_on_color c) board);
          on_color_req = on_color_pips target;
          off_color_req = off_color_pips target
      in
      if have_lands then
        (if hand_has_on_color_land \<and> board_on_color_count < on_color_req then
           play_land is_on_color_land hand board
         else if hand_has_off_color_land \<and> board_off_color_count < off_color_req then
           play_land is_off_color_land hand board
         else if list_ex is_land hand then
           play_land is_land hand board
         else Inr (hand, board, False))
      else Inr (hand, board, False))"

text \<open>The cast check, on the board after the land drop.\<close>

definition castable :: "target_card \<Rightarrow> card list \<Rightarrow> bool" where
  "castable target board =
     (let board_on_color_count = int (count_if get_is_on_color board);
          board_off_color_count = int (count_if (\<lambda>c. \<not> get_is_on_color c) board)
      in board_on_color_count \<ge> on_color_pips target
         \<and> board_off_color_count \<ge> off_color_pips target
         \<and> board_on_color_count + board_off_color_count \<ge> mana_value target)"

text \<open>The variables of the turn loop.\<close>

record game =
  hand :: "card list"
  deck :: "card list"
  board :: "card list"
  turn :: nat

text \<open>
  The draw at the top of an iteration: a card is drawn when the deck is not empty and the
  turn is past the first; an empty deck is the \<^verbatim>\<open>break\<close> (\<open>None\<close>); otherwise (first
  turn, cards left) nothing happens.
\<close>

definition draw_step :: "game \<Rightarrow> error + game option" where
  "draw_step g =
     (if length (deck g) > 0 \<and> turn g > 1 then
        (case draw_n (deck g) 1 of
           Inl e \<Rightarrow> Inl e
         | Inr (drawn_card, deck') \<Rightarrow>
             (case drawn_card of
                [] \<Rightarrow> Inl IndexError
              | c # _ \<Rightarrow> Inr (Some (g\<lparr>hand := hand g @ [c], deck := deck'\<rparr>))))
      else if length (deck g) = 0 then Inr None
      else Inr (Some g))"

text \<open>
  One iteration of the loop \<^verbatim>\<open>while True\<close> and how it ends: the \<^verbatim>\<open>break\<close> of the
  empty deck, the \<^verbatim>\<open>return\<close> of a cast at the current turn, or the next iteration with
  \<^verbatim>\<open>turn += 1\<close>.
\<close>

datatype control = Break | Return | Continue

definition turn_step :: "target_card \<Rightarrow> game \<Rightarrow> error + (control \<times> game)" where
  "turn_step target g =
     (case draw_step g of
        Inl e \<Rightarrow> Inl e
      | Inr None \<Rightarrow> Inr (Break, g)
      | Inr (Some g1) \<Rightarrow>
          (case land_drop_step target (hand g1) (board g1) of
             Inl e \<Rightarrow> Inl e
           | Inr (hand', board', land_drop) \<Rightarrow>
               (let g2 = g1\<lparr>hand := hand', board := board'\<rparr> in
                if castable target (board g2) then Inr (Return, g2)
                else Inr (Continue, g2\<lparr>turn := turn g2 + 1\<rparr>))))"

text \<open>The measure of the loop: the cards left, and two more iterations at most before the
  draws start.\<close>

definition turns_left :: "game \<Rightarrow> nat" where
  "turns_left g = length (deck g) + (2 - turn g)"

lemma draw_step_Some:
  assumes "draw_step g = Inr (Some g1)"
  shows "board g1 = board g \<and> turn g1 = turn g
         \<and> (if turn g > 1 then deck g = hd (deck g) # deck g1 \<and> hand g1 = hand g @ [hd (deck g)]
            else deck g1 = deck g \<and> hand g1 = hand g \<and> deck g \<noteq> [])"
proof (cases "deck g")
  case Nil
  with assms show ?thesis by (simp add: draw_step_def)
next
  case (Cons c cs)
  with assms show ?thesis
    by (auto simp: draw_step_def draw_n_def split: if_splits)
qed

lemma turn_step_Continue_measure:
  assumes "turn_step target g = Inr (Continue, g')"
  shows "turns_left g' < turns_left g"
proof -
  from assms obtain g1 hand' board' where
    d: "draw_step g = Inr (Some g1)" and
    g': "g' = g1\<lparr>hand := hand', board := board', turn := turn g1 + 1\<rparr>"
    by (auto simp: turn_step_def Let_def split: sum.splits option.splits if_splits)
  from draw_step_Some [OF d] have t: "turn g1 = turn g" by simp
  show ?thesis
  proof (cases "turn g > 1")
    case True
    with draw_step_Some [OF d] have "deck g = hd (deck g) # deck g1" by simp
    then have "length (deck g) = Suc (length (deck g1))" by (metis length_Cons)
    with True g' t show ?thesis by (simp add: turns_left_def)
  next
    case False
    with draw_step_Some [OF d] g' t show ?thesis by (simp add: turns_left_def)
  qed
qed

text \<open>
  The loop. The result is \<^verbatim>\<open>cast_turn\<close> (\<open>None\<close> after the \<^verbatim>\<open>break\<close>) and the variables at
  the exit.
\<close>

function turn_loop :: "target_card \<Rightarrow> game \<Rightarrow> error + (nat option \<times> game)" where
  "turn_loop target g =
     (case turn_step target g of
        Inl e \<Rightarrow> Inl e
      | Inr (Break, g') \<Rightarrow> Inr (None, g')
      | Inr (Return, g') \<Rightarrow> Inr (Some (turn g'), g')
      | Inr (Continue, g') \<Rightarrow> turn_loop target g')"
  by pat_completeness auto
termination
  by (relation "measure (\<lambda>(target, g). turns_left g)")
     (auto simp: turn_step_Continue_measure)

section \<open>A trial\<close>

text \<open>
  The dictionary a trial returns. \<^verbatim>\<open>np.float64(turn)\<close> and
  \<^verbatim>\<open>np.float64(mulligan_count)\<close> hold small natural numbers exactly and are kept as
  \<open>nat\<close>. \<^verbatim>\<open>np.int16(v)\<close> of a Python integer outside the 16-bit range raises
  \<^verbatim>\<open>OverflowError\<close> (NumPy 2; earlier versions wrapped with a deprecation warning).
\<close>

record trial_result =
  cast_turn :: "nat option"
  result_mana_value :: int
  result_on_color_pips :: int
  result_off_color_pips :: int
  result_generic :: int
  mulligan_count :: nat

definition np_int16 :: "int \<Rightarrow> error + int" where
  "np_int16 v = (if - 32768 \<le> v \<and> v \<le> 32767 then Inr v else Inl OverflowError)"

definition make_result :: "target_card \<Rightarrow> nat option \<Rightarrow> nat \<Rightarrow> error + trial_result" where
  "make_result target ct mc =
     (case np_int16 (mana_value target) of Inl e \<Rightarrow> Inl e | Inr mv \<Rightarrow>
      (case np_int16 (on_color_pips target) of Inl e \<Rightarrow> Inl e | Inr onp \<Rightarrow>
       (case np_int16 (off_color_pips target) of Inl e \<Rightarrow> Inl e | Inr offp \<Rightarrow>
        (case np_int16 (generic target) of Inl e \<Rightarrow> Inl e | Inr gen \<Rightarrow>
           Inr \<lparr>cast_turn = ct, result_mana_value = mv, result_on_color_pips = onp,
                result_off_color_pips = offp, result_generic = gen, mulligan_count = mc\<rparr>))))"

text \<open>The game at the first turn: the kept hand, the library, an empty board.\<close>

definition start_game :: "card list \<Rightarrow> card list \<Rightarrow> game" where
  "start_game hand1 deck1 = \<lparr>hand = hand1, deck = deck1, board = [], turn = 1\<rparr>"

text \<open>
  \<^verbatim>\<open>simulate\<close>, the single-trial entry point. \<open>None\<close> is a trial that does not return,
  \<open>Some (Inl e)\<close> one that raises \<open>e\<close>.
\<close>

definition simulate ::
  "(nat \<Rightarrow> nat) \<Rightarrow> (nat \<Rightarrow> uuid) \<Rightarrow> int \<Rightarrow> int \<Rightarrow> int \<Rightarrow> int \<Rightarrow> (error + trial_result) option" where
  "simulate pick uids mv on_pips off_pips on_color_land_count =
     (case deal pick uids mv on_pips off_pips on_color_land_count of
        Inl e \<Rightarrow> Some (Inl e)
      | Inr (target, hand0, deck0) \<Rightarrow>
          (case resolve_mulligans target hand0 deck0 of
             None \<Rightarrow> None
           | Some (Inl e) \<Rightarrow> Some (Inl e)
           | Some (Inr (hand1, deck1, mc)) \<Rightarrow>
               (case turn_loop target (start_game hand1 deck1) of
                  Inl e \<Rightarrow> Some (Inl e)
                | Inr (ct, g) \<Rightarrow> Some (make_result target ct mc))))"

section \<open>Trial Orchestrator\<close>

text \<open>
  The summary of \<^verbatim>\<open>run_simulations\<close>. \<^verbatim>\<open>Series.mean()\<close> of pandas skips the missing
  values of a column and is NaN (\<open>None\<close> here) when nothing is left. The sums are sums of
  small whole numbers, exact in double precision; the quotient is taken in the reals.
\<close>

record aggregate =
  agg_mana_value :: int
  agg_on_color_pips :: int
  agg_off_color_pips :: int
  on_color_land_count :: int
  off_color_land_count :: int
  iterations :: int
  average_cast_turn :: "real option"
  average_mulligan_count :: "real option"

definition series_mean :: "real option list \<Rightarrow> real option" where
  "series_mean column =
     (let present = List.map_filter (\<lambda>v. v) column in
      if present = [] then None else Some (sum_list present / real (length present)))"

text \<open>
  \<^verbatim>\<open>worker\<close>: a trial that raises is \<open>Some None\<close> (the \<^verbatim>\<open>except\<close> returns
  \<^verbatim>\<open>None\<close>), a trial that never returns is \<open>None\<close>.
\<close>

definition worker ::
  "(nat \<Rightarrow> nat) \<times> (nat \<Rightarrow> uuid) \<Rightarrow> int \<Rightarrow> int \<Rightarrow> int \<Rightarrow> int \<Rightarrow> trial_result option option" where
  "worker rnd mv on_pips off_pips n =
     (case simulate (fst rnd) (snd rnd) mv on_pips off_pips n of
        None \<Rightarrow> None
      | Some (Inl e) \<Rightarrow> Some None
      | Some (Inr r) \<Rightarrow> Some (Some r))"

text \<open>
  \<^verbatim>\<open>run_simulations\<close>. \<open>world i\<close> is the randomness trial \<open>i\<close> sees (its shuffle draws
  and identifiers). The results are listed in the order of submission; the source lists
  them in the order of completion, and both means are sums over the list.
\<close>

definition run_simulations ::
  "(nat \<Rightarrow> (nat \<Rightarrow> nat) \<times> (nat \<Rightarrow> uuid)) \<Rightarrow> int \<Rightarrow> int \<Rightarrow> int \<Rightarrow> int \<Rightarrow> int
     \<Rightarrow> (error + aggregate option) option" where
  "run_simulations world mv on_pips off_pips n num_simulations =
     (if mv < 1 then Some (Inl (ValueError ''Mana value must be at least 1.''))
      else if on_pips < 1 then Some (Inl (ValueError ''On-color pips must be a positive integer.''))
      else if off_pips < 0 then
        Some (Inl (ValueError ''Off-color pips must be a non-negative integer.''))
      else if n < 1 then Some (Inl (ValueError ''On-color land count must be at least 1.''))
      else if n > LAND_COUNT then
        Some (Inl (ValueError ''On-color land count must be at most {LAND_COUNT}, got {on_color_land_count}.''))
      else if num_simulations < 1 then
        Some (Inl (ValueError ''Number of simulations must be at least 1.''))
      else if on_pips + off_pips > mv then
        Some (Inl (ValueError ''The sum of on_color_pips and off_color_pips must not exceed mana_value.''))
      else
        (let outcomes = map (\<lambda>i. worker (world i) mv on_pips off_pips n) [0..<nat num_simulations] in
         if list_ex (\<lambda>outcome. outcome = None) outcomes then None
         else
           (let results = List.map_filter (\<lambda>outcome. case outcome of None \<Rightarrow> None | Some r \<Rightarrow> r) outcomes in
            if length results > 0 then
              Some (Inr (Some
                \<lparr>agg_mana_value = mv, agg_on_color_pips = on_pips, agg_off_color_pips = off_pips,
                 on_color_land_count = n, off_color_land_count = LAND_COUNT - n,
                 iterations = num_simulations,
                 average_cast_turn = series_mean (map (\<lambda>r. map_option real (cast_turn r)) results),
                 average_mulligan_count = series_mean (map (\<lambda>r. Some (real (mulligan_count r))) results)\<rparr>))
            else Some (Inr None))))"

section \<open>Inputs and invariants\<close>

text \<open>
  The inputs on which \<^verbatim>\<open>simulate\<close> passes its argument checks, builds the target card
  and the deck, and deals (lemmas \<open>deal_Inr\<close> and \<open>deal_total\<close> below), and the
  invariant of hand and library between mulligans: seven cards in hand, one of them the
  target card, and 33 cards in the library, none of them a target card.
\<close>

definition valid_input :: "int \<Rightarrow> int \<Rightarrow> int \<Rightarrow> int \<Rightarrow> bool" where
  "valid_input mv on_pips off_pips n \<longleftrightarrow>
     1 \<le> mv \<and> 1 \<le> on_pips \<and> 0 \<le> off_pips \<and> on_pips + off_pips \<le> mv
     \<and> 1 \<le> n \<and> n \<le> 17 \<and> on_pips \<le> n \<and> off_pips \<le> 17 - n"

definition opening_inv :: "target_card \<Rightarrow> card list \<Rightarrow> card list \<Rightarrow> bool" where
  "opening_inv target hnd dck \<longleftrightarrow>
     length hnd = 7 \<and> length dck = 33 \<and> TargetCard target \<in> set hnd
     \<and> count_if is_target_card hnd = 1 \<and> count_if is_target_card dck = 0"

text \<open>
  What a trial holds once the mulligans are resolved: \<^verbatim>\<open>mulligan_count\<close>, the size of
  the kept hand and the size of the library (\<open>None\<close> when the trial has raised or does
  not get there).
\<close>

definition kept_sizes ::
  "(nat \<Rightarrow> nat) \<Rightarrow> (nat \<Rightarrow> uuid) \<Rightarrow> int \<Rightarrow> int \<Rightarrow> int \<Rightarrow> int \<Rightarrow> (nat \<times> nat \<times> nat) option" where
  "kept_sizes pick uids mv on_pips off_pips n =
     (case deal pick uids mv on_pips off_pips n of
        Inl e \<Rightarrow> None
      | Inr (target, hand0, deck0) \<Rightarrow>
          (case resolve_mulligans target hand0 deck0 of
             None \<Rightarrow> None
           | Some (Inl e) \<Rightarrow> None
           | Some (Inr (h, d, k)) \<Rightarrow> Some (k, length h, length d)))"

text \<open>
  What one iteration of the turn loop does to the variables: the cards drawn (one when
  the turn is past the first, none otherwise) leave the top of the deck for the hand, and
  the lands played (one at most) leave the hand for the end of the board.
\<close>

definition turn_effect :: "game \<Rightarrow> game \<Rightarrow> bool" where
  "turn_effect g g' \<longleftrightarrow>
     (\<exists>drawn played.
        deck g = drawn @ deck g' \<and> length drawn = (if turn g > 1 then 1 else 0)
        \<and> board g' = board g @ played \<and> length played \<le> 1 \<and> list_all is_land played
        \<and> mset (hand g') + mset played = mset (hand g) + mset drawn)"

text \<open>
  \<open>game_at target g i\<close> is the game at the top of the iteration reached after \<open>i\<close>
  iterations that went on to the next turn, if the loop gets that far.
\<close>

fun game_at :: "target_card \<Rightarrow> game \<Rightarrow> nat \<Rightarrow> game option" where
  "game_at target g 0 = Some g"
| "game_at target g (Suc i) =
     (case turn_step target g of
        Inr (Continue, g') \<Rightarrow> game_at target g' i
      | _ \<Rightarrow> None)"

text \<open>
  The invariant of the turn loop: the target card is in the hand, it is the only target
  card there, the deck holds none, and the board holds lands only.
\<close>

definition game_inv :: "target_card \<Rightarrow> game \<Rightarrow> bool" where
  "game_inv target g \<longleftrightarrow>
     TargetCard target \<in> set (hand g) \<and> count_if is_target_card (hand g) = 1
     \<and> count_if is_target_card (deck g) = 0 \<and> list_all is_land (board g)"

text \<open>
  A small opening position used to run the mulligan loop on: six filler cards and the
  target card in hand, and a library whose lands sit below sixteen filler cards.
\<close>

definition demo_target :: target_card where
  "demo_target = \<lparr>card_id = 0, mana_value = 2, on_color_pips = 1, off_color_pips = 0, generic = 1\<rparr>"

definition demo_hand :: "card list" where
  "demo_hand = map OtherCard [1..<7] @ [TargetCard demo_target]"

definition demo_deck :: "card list" where
  "demo_deck = map OtherCard [7..<23] @ map (\<lambda>i. Land i False) [23..<39] @ [Land 39 True]"

text \<open>
  A small game for the turn loop: a filler card, an on-color land and the target card
  (mana value 2, one on-color pip) in hand, an off-color land and a filler card in the
  deck; and the games after its first and its second turn.
\<close>

definition small_hand :: "card list" where
  "small_hand = [OtherCard 1, Land 2 True, TargetCard demo_target]"

definition small_deck :: "card list" where
  "small_deck = [Land 3 False, OtherCard 4]"

definition after_turn_1 :: game where
  "after_turn_1 = \<lparr>hand = [OtherCard 1, TargetCard demo_target],
                    deck = [Land 3 False, OtherCard 4], board = [Land 2 True], turn = 2\<rparr>"

definition after_turn_2 :: game where
  "after_turn_2 = \<lparr>hand = [OtherCard 1, TargetCard demo_target],
                    deck = [OtherCard 4], board = [Land 2 True, Land 3 False], turn = 2\<rparr>"

text \<open>
  The trials of a run that are not discarded, in the order of their index: the results of
  the trials that returned. The turns of those among them that cast the card. The mean of
  a list of numbers, undefined (\<open>None\<close>) for the empty list.
\<close>

definition trial_results ::
  "(nat \<Rightarrow> (nat \<Rightarrow> nat) \<times> (nat \<Rightarrow> uuid)) \<Rightarrow> int \<Rightarrow> int \<Rightarrow> int \<Rightarrow> int \<Rightarrow> int \<Rightarrow> trial_result list" where
  "trial_results world mv on_pips off_pips n num_simulations =
     List.map_filter
       (\<lambda>i. case simulate (fst (world i)) (snd (world i)) mv on_pips off_pips n of
               Some (Inr r) \<Rightarrow> Some r
             | _ \<Rightarrow> None)
       [0..<nat num_simulations]"

definition cast_turns :: "trial_result list \<Rightarrow> nat list" where
  "cast_turns results = List.map_filter cast_turn results"

definition mean :: "real list \<Rightarrow> real option" where
  "mean xs = (if xs = [] then None else Some (sum_list xs / real (length xs)))"

text \<open>
  Two trials for a card of mana value 30, which seventeen lands never pay for: the shuffle
  draws of the first are all zero, those of the second leave the deck as it was built.
\<close>

definition two_seeds :: "nat \<Rightarrow> (nat \<Rightarrow> nat) \<times> (nat \<Rightarrow> uuid)" where
  "two_seeds i = (if i = 0 then (\<lambda>j. 0) else (\<lambda>j. j), (\<lambda>k. k))"

definition never_cast :: "nat \<Rightarrow> trial_result" where
  "never_cast k = \<lparr>cast_turn = None, result_mana_value = 30, result_on_color_pips = 1,
                    result_off_color_pips = 0, result_generic = 29, mulligan_count = k\<rparr>"

declare mulligan_loop.simps [simp del] turn_loop.simps [simp del]

section \<open>Counting cards\<close>

lemma count_if_append: "count_if p (xs @ ys) = count_if p xs + count_if p ys"
  by (simp add: count_if_def)

lemma count_if_mset: "mset xs = mset ys \<Longrightarrow> count_if p xs = count_if p ys"
proof -
  assume "mset xs = mset ys"
  then have "mset (filter p xs) = mset (filter p ys)" by simp
  then show ?thesis unfolding count_if_def by (rule mset_eq_length)
qed

lemma swap_mset:
  assumes "i < length x" "j < length x"
  shows "mset (swap x i j) = mset x" and "length (swap x i j) = length x"
  using assms by (simp_all add: swap_def mset_swap)

lemma foldl_swap_mset:
  assumes "\<forall>i\<in>set ks. i < length x"
  shows "mset (foldl (\<lambda>y i. swap y i (random_interval pick i)) x ks) = mset x
         \<and> length (foldl (\<lambda>y i. swap y i (random_interval pick i)) x ks) = length x"
  using assms
proof (induction ks arbitrary: x)
  case Nil
  then show ?case by simp
next
  case (Cons k ks)
  have k: "k < length x" using Cons.prems by simp
  have r: "random_interval pick k < length x"
    using k by (simp add: random_interval_def) (meson le_less_trans mod_less_divisor less_Suc_eq_le zero_less_Suc)
  let ?y = "swap x k (random_interval pick k)"
  have "\<forall>i\<in>set ks. i < length ?y" using Cons.prems swap_mset(2) [OF k r] by simp
  from Cons.IH [OF this] swap_mset [OF k r] show ?case by simp
qed

lemma mset_shuffle: "mset (shuffle pick x) = mset x"
  unfolding shuffle_def using foldl_swap_mset [of "rev [1..<length x]" x pick] by simp

lemma length_shuffle: "length (shuffle pick x) = length x"
  using mset_shuffle [of pick x] by (rule mset_eq_length)

lemma count_if_shuffle: "count_if p (shuffle pick x) = count_if p x"
  by (rule count_if_mset) (rule mset_shuffle)

lemma count_if_map: "count_if p (map f ks) = length (filter (\<lambda>k. p (f k)) ks)"
  by (simp add: count_if_def filter_map o_def)

lemma build_deck_counts:
  "length (build_deck uids s) = nat (on_color s) + nat (off_color s) + 22"
  "count_if is_on_color_land (build_deck uids s) = nat (on_color s)"
  "count_if is_off_color_land (build_deck uids s) = nat (off_color s)"
  "count_if is_other_card (build_deck uids s) = 22"
  "count_if is_target_card (build_deck uids s) = 0"
  "count_if is_land (build_deck uids s) = nat (on_color s) + nat (off_color s)"
  by (simp_all add: build_deck_def Let_def count_if_append count_if_map
        get_land_def get_other_card_def DECK_SIZE_def LAND_COUNT_def)

lemma get_deck_Inr:
  assumes "get_deck pick uids target n = Inr d"
  shows "1 \<le> n \<and> n \<le> 17 \<and> on_color_pips target \<le> n \<and> off_color_pips target \<le> 17 - n
         \<and> d = shuffle pick (build_deck uids \<lparr>on_color = n, off_color = 17 - n\<rparr>)"
  using assms
  by (auto simp: get_deck_def get_land_split_def Let_def build_deck_counts LAND_COUNT_def
        DECK_SIZE_def split: if_splits)

lemma get_deck_counts:
  assumes "get_deck pick uids target n = Inr d"
  shows "length d = 39
         \<and> int (count_if is_on_color_land d) = n
         \<and> int (count_if is_off_color_land d) = 17 - n
         \<and> count_if is_other_card d = 22
         \<and> count_if is_target_card d = 0"
proof -
  from get_deck_Inr [OF assms] have n: "1 \<le> n" "n \<le> 17"
    and d: "d = shuffle pick (build_deck uids \<lparr>on_color = n, off_color = 17 - n\<rparr>)"
    by simp_all
  from n show ?thesis
    unfolding d by (simp add: length_shuffle count_if_shuffle build_deck_counts)
qed

lemma get_deck_total:
  assumes "1 \<le> on_color_pips target" "0 \<le> off_color_pips target"
    and "on_color_pips target \<le> n" "off_color_pips target \<le> 17 - n"
  shows "\<exists>d. get_deck pick uids target n = Inr d"
  using assms
  by (simp add: get_deck_def get_land_split_def Let_def build_deck_counts LAND_COUNT_def
        DECK_SIZE_def)

lemma count_if_remove1:
  "c \<in> set xs \<Longrightarrow> count_if p xs = count_if p (remove1 c xs) + (if p c then 1 else 0)"
  by (induction xs) (auto simp: count_if_def)

lemma count_if_take_drop: "count_if p (take n xs) + count_if p (drop n xs) = count_if p xs"
  using count_if_append [of p "take n xs" "drop n xs"] by simp

lemma count_if_zero_iff: "count_if p xs = 0 \<longleftrightarrow> (\<forall>c\<in>set xs. \<not> p c)"
  by (simp add: count_if_def filter_empty_conv)

lemma take_first_ok:
  assumes "list_ex p hnd"
  shows "\<exists>c. take_first p hnd = Inr (c, remove1 c hnd) \<and> p c \<and> c \<in> set hnd"
proof -
  from assms have "find p hnd \<noteq> None" by (auto simp: find_None_iff list_ex_iff)
  then obtain c where c: "find p hnd = Some c" by blast
  then have "p c" "c \<in> set hnd" by (auto simp: find_Some_iff)
  with c show ?thesis by (simp add: take_first_def next_card_def list_remove_def)
qed

section \<open>Deck Builder: composition and configuration errors\<close>

text \<open>
  C3. Whenever the Deck Builder accepts a target card and an on-color land count (it
  returns a library instead of raising), the library has exactly 39 cards:
  \<open>on_color_land_count\<close> on-color lands, \<open>17 - on_color_land_count\<close> off-color lands and
  22 filler cards, and no target card.
\<close>

theorem get_deck_composition:
  assumes "get_deck pick uids target n = Inr d"
  shows "length d = 39
         \<and> int (count_if is_on_color_land d) = n
         \<and> int (count_if is_off_color_land d) = 17 - n
         \<and> count_if is_other_card d = 22
         \<and> count_if is_target_card d = 0"
  using get_deck_counts [OF assms] .

theorem get_deck_composition_witness:
  "\<exists>d. get_deck (\<lambda>i. i div 2) (\<lambda>k. k)
          \<lparr>card_id = 0, mana_value = 3, on_color_pips = 1, off_color_pips = 1, generic = 1\<rparr> 10
        = Inr d
      \<and> length d = 39
      \<and> int (count_if is_on_color_land d) = 10
      \<and> int (count_if is_off_color_land d) = 17 - 10
      \<and> count_if is_other_card d = 22
      \<and> count_if is_target_card d = 0"
proof -
  obtain d where d: "get_deck (\<lambda>i. i div 2) (\<lambda>k. k)
      \<lparr>card_id = 0, mana_value = 3, on_color_pips = 1, off_color_pips = 1, generic = 1\<rparr> 10 = Inr d"
    by (simp add: get_deck_def get_land_split_def Let_def build_deck_counts LAND_COUNT_def
        DECK_SIZE_def)
  from get_deck_composition [OF d] d show ?thesis by blast
qed

text \<open>
  C4. For a target card (as \<^verbatim>\<open>get_target_card\<close> returns it) and any on-color land count,
  the Deck Builder raises the configuration error of the on-color lands when
  \<open>on_color_land_count < on_color_pips\<close>, the one of the off-color lands when
  \<open>17 - on_color_land_count < off_color_pips\<close>, both before a card is created, and
  returns a deck in every other case.
\<close>

theorem get_deck_configuration_error:
  assumes "get_target_card uid mv on_pips off_pips gen = Inr target"
  shows "(if n < on_color_pips target then
            get_deck pick uids target n
              = Inl (ValueError ''Invalid deck configuration: Not enough on-color lands: {on_color_land_count} < {on_color_pips}'')
          else if LAND_COUNT - n < off_color_pips target then
            get_deck pick uids target n
              = Inl (ValueError ''Invalid deck configuration: Not enough off-color lands: {LAND_COUNT - on_color_land_count} < {off_color_pips}'')
          else (\<exists>d. get_deck pick uids target n = Inr d))"
proof -
  from assms have "1 \<le> on_color_pips target" "0 \<le> off_color_pips target"
    by (auto simp: get_target_card_def split: if_splits)
  then show ?thesis
    using get_deck_total [of target n pick uids]
    by (auto simp: get_deck_def LAND_COUNT_def)
qed

theorem get_deck_configuration_error_witness:
  "get_target_card 0 4 2 1 1
     = Inr \<lparr>card_id = 0, mana_value = 4, on_color_pips = 2, off_color_pips = 1, generic = 1\<rparr>
   \<and> get_deck (\<lambda>i. i) (\<lambda>k. k)
        \<lparr>card_id = 0, mana_value = 4, on_color_pips = 2, off_color_pips = 1, generic = 1\<rparr> 1
      = Inl (ValueError ''Invalid deck configuration: Not enough on-color lands: {on_color_land_count} < {on_color_pips}'')
   \<and> get_deck (\<lambda>i. i) (\<lambda>k. k)
        \<lparr>card_id = 0, mana_value = 4, on_color_pips = 2, off_color_pips = 1, generic = 1\<rparr> 17
      = Inl (ValueError ''Invalid deck configuration: Not enough off-color lands: {LAND_COUNT - on_color_land_count} < {off_color_pips}'')
   \<and> (\<exists>d. get_deck (\<lambda>i. i) (\<lambda>k. k)
        \<lparr>card_id = 0, mana_value = 4, on_color_pips = 2, off_color_pips = 1, generic = 1\<rparr> 9
      = Inr d)"
proof -
  let ?t = "\<lparr>card_id = 0, mana_value = 4, on_color_pips = 2, off_color_pips = 1, generic = 1\<rparr>"
  have t: "get_target_card 0 4 2 1 1 = Inr ?t"
    by (simp add: get_target_card_def)
  from get_deck_configuration_error [OF t, of 1 "\<lambda>i. i" "\<lambda>k. k"]
       get_deck_configuration_error [OF t, of 17 "\<lambda>i. i" "\<lambda>k. k"]
       get_deck_configuration_error [OF t, of 9 "\<lambda>i. i" "\<lambda>k. k"] t
  show ?thesis by (simp add: LAND_COUNT_def)
qed

section \<open>Entry point: zero on-color pips\<close>

text \<open>
  C9. \<^verbatim>\<open>simulate\<close> called with \<open>on_color_pips = 0\<close> raises a \<^verbatim>\<open>ValueError\<close>, whatever the
  other arguments are; the error arises while the arguments are checked and the target
  card is made, before a deck exists.
\<close>

theorem simulate_rejects_zero_on_color_pips:
  "\<exists>msg. deal pick uids mv 0 off_pips n = Inl (ValueError msg)
         \<and> simulate pick uids mv 0 off_pips n = Some (Inl (ValueError msg))"
  by (simp add: simulate_def deal_def get_target_card_def Let_def)

section \<open>Dealing and mulligans: helper lemmas\<close>

lemma deal_Inr:
  assumes "deal pick uids mv on_pips off_pips n = Inr (target, hand0, deck0)"
  shows "valid_input mv on_pips off_pips n \<and> opening_inv target hand0 deck0
         \<and> target = \<lparr>card_id = uids 0, mana_value = mv, on_color_pips = on_pips,
                      off_color_pips = off_pips, generic = mv - on_pips - off_pips\<rparr>"
proof -
  let ?gen = "mv - on_pips - off_pips"
  from assms have rest:
    "(case get_target_card (uids 0) mv on_pips off_pips ?gen of
        Inl e \<Rightarrow> Inl e
      | Inr target \<Rightarrow>
          (case get_deck pick (\<lambda>k. uids (Suc k)) target n of
             Inl e \<Rightarrow> Inl e
           | Inr dck \<Rightarrow>
               (case draw_n dck 6 of
                  Inl e \<Rightarrow> Inl e
                | Inr (hnd, dck') \<Rightarrow> Inr (target, hnd @ [TargetCard target], dck'))))
     = Inr (target, hand0, deck0)"
    unfolding deal_def Let_def by (simp split: if_splits)
  then obtain t' where t': "get_target_card (uids 0) mv on_pips off_pips ?gen = Inr t'"
    by (cases "get_target_card (uids 0) mv on_pips off_pips ?gen") simp_all
  with rest obtain d where d': "get_deck pick (\<lambda>k. uids (Suc k)) t' n = Inr d"
    by (cases "get_deck pick (\<lambda>k. uids (Suc k)) t' n") simp_all
  with rest t' obtain h6 d6 where dr: "draw_n d 6 = Inr (h6, d6)"
    by (cases "draw_n d 6") auto
  with rest t' d' have eqs: "t' = target" "hand0 = h6 @ [TargetCard target]" "deck0 = d6"
    by auto
  from dr have h6: "h6 = take 6 d" "d6 = drop 6 d"
    by (simp_all add: draw_n_def split: if_splits)
  from t' eqs have t: "get_target_card (uids 0) mv on_pips off_pips ?gen = Inr target" by simp
  from d' eqs have d: "get_deck pick (\<lambda>k. uids (Suc k)) target n = Inr d" by simp
  from eqs h6 have hd: "hand0 = take 6 d @ [TargetCard target]" "deck0 = drop 6 d" by simp_all
  from t have tv: "target = \<lparr>card_id = uids 0, mana_value = mv, on_color_pips = on_pips,
      off_color_pips = off_pips, generic = mv - on_pips - off_pips\<rparr>"
    and v1: "1 \<le> mv" "1 \<le> on_pips" "0 \<le> off_pips" "on_pips + off_pips \<le> mv"
    by (auto simp: get_target_card_def split: if_splits)
  from get_deck_Inr [OF d] tv have v2: "1 \<le> n" "n \<le> 17" "on_pips \<le> n" "off_pips \<le> 17 - n"
    by simp_all
  from get_deck_counts [OF d] have len: "length d = 39" and c0: "count_if is_target_card d = 0"
    by simp_all
  from c0 count_if_take_drop [of is_target_card 6 d]
  have "count_if is_target_card (take 6 d) = 0" "count_if is_target_card (drop 6 d) = 0"
    by simp_all
  with len hd have "opening_inv target hand0 deck0"
    by (simp add: opening_inv_def count_if_append) (simp add: count_if_def)
  with v1 v2 tv show ?thesis by (simp add: valid_input_def)
qed

lemma deal_total:
  assumes "valid_input mv on_pips off_pips n"
  shows "\<exists>target hand0 deck0. deal pick uids mv on_pips off_pips n = Inr (target, hand0, deck0)"
proof -
  let ?t = "\<lparr>card_id = uids 0, mana_value = mv, on_color_pips = on_pips,
      off_color_pips = off_pips, generic = mv - on_pips - off_pips\<rparr>"
  from assms have t: "get_target_card (uids 0) mv on_pips off_pips (mv - on_pips - off_pips) = Inr ?t"
    by (simp add: valid_input_def get_target_card_def)
  from get_deck_total [of ?t n pick "\<lambda>k. uids (Suc k)"] assms
  obtain d where d: "get_deck pick (\<lambda>k. uids (Suc k)) ?t n = Inr d"
    by (auto simp: valid_input_def)
  from get_deck_counts [OF d] have "length d = 39" by simp
  then have "draw_n d 6 = Inr (take 6 d, drop 6 d)" by (simp add: draw_n_def)
  with t d assms show ?thesis
    by (simp add: deal_def Let_def valid_input_def LAND_COUNT_def)
qed

lemma mulligan_inv:
  assumes "opening_inv target hnd dck"
  shows "\<exists>h d. mulligan target hnd dck = Inr (h, d) \<and> opening_inv target h d"
proof -
  let ?T = "TargetCard target"
  define rest where "rest = remove1 ?T hnd"
  define al where "al = dck @ rest"
  from assms have mem: "?T \<in> set hnd" and lh: "length hnd = 7" and ld: "length dck = 33"
    and ch: "count_if is_target_card hnd = 1" and cd: "count_if is_target_card dck = 0"
    by (simp_all add: opening_inv_def)
  from mem lh have lr: "length rest = 6" by (simp add: rest_def length_remove1)
  from count_if_remove1 [OF mem, of is_target_card] ch have cr: "count_if is_target_card rest = 0"
    by (simp add: rest_def)
  from cr cd have ca: "count_if is_target_card al = 0" by (simp add: al_def count_if_append)
  from lr ld have la: "length al = 39" by (simp add: al_def)
  from ca count_if_take_drop [of is_target_card 6 al]
  have c6: "count_if is_target_card (take 6 al) = 0" "count_if is_target_card (drop 6 al) = 0"
    by simp_all
  from la have dr: "draw_n al 6 = Inr (take 6 al, drop 6 al)" by (simp add: draw_n_def)
  from mem have "list_remove ?T hnd = Inr rest" by (simp add: list_remove_def rest_def)
  with dr have m: "mulligan target hnd dck = Inr (take 6 al @ [?T], drop 6 al)"
    by (simp add: mulligan_def al_def)
  from la c6 have "opening_inv target (take 6 al @ [?T]) (drop 6 al)"
    by (simp add: opening_inv_def count_if_append) (simp add: count_if_def)
  with m show ?thesis by blast
qed

lemma mulligan_loop_bound:
  "mulligan_loop target hnd dck mc = Inr (h, d, k) \<Longrightarrow> mc \<le> 3 \<Longrightarrow> mc \<le> k \<and> k \<le> 3"
proof (induction target hnd dck mc rule: mulligan_loop.induct)
  case (1 target hnd dck mc)
  from "1.prems"(1) show ?case
    apply (subst (asm) mulligan_loop.simps)
    apply (simp split: if_splits sum.splits prod.splits)
    using "1.IH" "1.prems"(2) apply fastforce+
    done
qed

lemma mulligan_loop_inv:
  "opening_inv target hnd dck \<Longrightarrow>
   \<exists>h d k. mulligan_loop target hnd dck mc = Inr (h, d, k) \<and> opening_inv target h d"
proof (induction target hnd dck mc rule: mulligan_loop.induct)
  case (1 target hnd dck mc)
  from mulligan_inv [OF "1.prems"] obtain h d where
    m: "mulligan target hnd dck = Inr (h, d)" and i: "opening_inv target h d" by blast
  show ?case
  proof (cases "(mc = 0 \<or> mc = 1) \<and> count_if is_on_color_land hnd = 0")
    case True
    from "1.IH"(1) [OF True m refl i] True m show ?thesis
      by (subst mulligan_loop.simps) simp
  next
    case False
    show ?thesis
    proof (cases "mc = 2 \<and> count_if is_on_color_land hnd + count_if is_off_color_land hnd = 0")
      case True
      from "1.IH"(2) [OF False True m refl i] False True m show ?thesis
        by (subst mulligan_loop.simps) simp
    next
      case F2: False
      with False "1.prems" show ?thesis
        by (subst mulligan_loop.simps) auto
    qed
  qed
qed


lemma nontarget_cases:
  "\<not> is_target_card c \<Longrightarrow> is_other_card c \<or> is_off_color_land c \<or> is_on_color_land c"
  by (cases c) auto

lemma target_not_other:
  "is_other_card c \<Longrightarrow> \<not> is_target_card c"
  "is_off_color_land c \<Longrightarrow> \<not> is_target_card c"
  "is_on_color_land c \<Longrightarrow> \<not> is_target_card c"
  "is_land c \<Longrightarrow> \<not> is_target_card c"
  by (cases c; simp)+

lemma trim_loop_ok:
  assumes "length r \<le> mc" and "mc - length r \<le> count_if (\<lambda>c. \<not> is_target_card c) hnd"
  shows "\<exists>h r'. trim_loop hnd r mc = Some (Inr (h, r')) \<and> length r' = mc
           \<and> mset h + mset r' = mset hnd + mset r
           \<and> count_if is_target_card r' = count_if is_target_card r"
  using assms
proof (induction "mc - length r" arbitrary: hnd r)
  case 0
  then have "length r = mc" by simp
  then show ?case by (subst trim_loop.simps) auto
next
  case (Suc m)
  have ne: "mc \<noteq> 0" "length r \<noteq> mc" using Suc.hyps(2) by auto
  have step: "\<exists>h r'. trim_loop (remove1 c hnd) (r @ [c]) mc = Some (Inr (h, r')) \<and> length r' = mc
           \<and> mset h + mset r' = mset hnd + mset r
           \<and> count_if is_target_card r' = count_if is_target_card r"
    if c: "c \<in> set hnd" "\<not> is_target_card c" for c
  proof -
    have 1: "m = mc - length (r @ [c])" using Suc.hyps(2) by simp
    have 2: "length (r @ [c]) \<le> mc" using ne Suc.prems by simp
    have 3: "mc - length (r @ [c]) \<le> count_if (\<lambda>c. \<not> is_target_card c) (remove1 c hnd)"
      using count_if_remove1 [OF c(1), of "\<lambda>c. \<not> is_target_card c"] c(2) Suc.prems(2) by simp
    from Suc.hyps(1) [OF 1 2 3] obtain h r' where
      t: "trim_loop (remove1 c hnd) (r @ [c]) mc = Some (Inr (h, r'))" and l: "length r' = mc"
      and m: "mset h + mset r' = mset (remove1 c hnd) + mset (r @ [c])"
      and k: "count_if is_target_card r' = count_if is_target_card (r @ [c])" by blast
    from c(1) have "mset (remove1 c hnd) + mset (r @ [c]) = mset hnd + mset r" by simp
    with m have m': "mset h + mset r' = mset hnd + mset r" by simp
    from k c(2) have "count_if is_target_card r' = count_if is_target_card r"
      by (simp add: count_if_def)
    with t l m' show ?thesis by blast
  qed
  from Suc.hyps(2) Suc.prems(2) have "count_if (\<lambda>c. \<not> is_target_card c) hnd \<noteq> 0" by simp
  then obtain c0 where "c0 \<in> set hnd" "\<not> is_target_card c0"
    by (auto simp: count_if_zero_iff)
  with nontarget_cases [of c0]
  have "list_ex is_other_card hnd \<or> list_ex is_off_color_land hnd \<or> list_ex is_on_color_land hnd"
    by (auto simp: list_ex_iff)
  then consider
      (a) "list_ex is_other_card hnd"
    | (b) "\<not> list_ex is_other_card hnd" "list_ex is_off_color_land hnd"
    | (c) "\<not> list_ex is_other_card hnd" "\<not> list_ex is_off_color_land hnd"
          "list_ex is_on_color_land hnd"
    by blast
  then show ?case
  proof cases
    case a
    from take_first_ok [OF a] obtain c where
      tf: "take_first is_other_card hnd = Inr (c, remove1 c hnd)" and c: "is_other_card c" "c \<in> set hnd"
      by blast
    from step [OF c(2) target_not_other(1) [OF c(1)]] ne a tf show ?thesis
      by (subst trim_loop.simps) simp
  next
    case b
    from take_first_ok [OF b(2)] obtain c where
      tf: "take_first is_off_color_land hnd = Inr (c, remove1 c hnd)"
      and c: "is_off_color_land c" "c \<in> set hnd"
      by blast
    from step [OF c(2) target_not_other(2) [OF c(1)]] ne b tf show ?thesis
      by (subst trim_loop.simps) simp
  next
    case c
    from take_first_ok [OF c(3)] obtain x where
      tf: "take_first is_on_color_land hnd = Inr (x, remove1 x hnd)"
      and x: "is_on_color_land x" "x \<in> set hnd"
      by blast
    from step [OF x(2) target_not_other(3) [OF x(1)]] ne c tf show ?thesis
      by (subst trim_loop.simps) simp
  qed
qed

lemma count_if_size: "count_if p xs = size (filter_mset p (mset xs))"
  by (simp add: count_if_def flip: mset_filter)

lemma count_if_compl: "count_if p xs + count_if (\<lambda>c. \<not> p c) xs = length xs"
  by (simp add: count_if_def sum_length_filter_compl)

lemma resolve_mulligans_ok:
  assumes "opening_inv target hand0 deck0"
  shows "\<exists>h d k. resolve_mulligans target hand0 deck0 = Some (Inr (h, d, k))
           \<and> k \<le> 3 \<and> length h = 7 - k \<and> length d = 33 + k
           \<and> TargetCard target \<in> set h \<and> count_if is_target_card h = 1
           \<and> count_if is_target_card d = 0"
proof -
  from mulligan_loop_inv [OF assms, of 0] obtain h1 d1 k where
    ml: "mulligan_loop target hand0 deck0 0 = Inr (h1, d1, k)" and inv: "opening_inv target h1 d1"
    by blast
  from mulligan_loop_bound [OF ml] have k: "k \<le> 3" by simp
  from inv have lh: "length h1 = 7" and ld: "length d1 = 33" and mem: "TargetCard target \<in> set h1"
    and ch: "count_if is_target_card h1 = 1" and cd: "count_if is_target_card d1 = 0"
    by (simp_all add: opening_inv_def)
  from count_if_compl [of is_target_card h1] lh ch
  have nt: "count_if (\<lambda>c. \<not> is_target_card c) h1 = 6" by simp
  with k have "k - length ([]::card list) \<le> count_if (\<lambda>c. \<not> is_target_card c) h1" by simp
  from trim_loop_ok [OF _ this] obtain h2 r where
    tl: "trim_loop h1 [] k = Some (Inr (h2, r))" and lr: "length r = k"
    and ms: "mset h2 + mset r = mset h1 + mset []"
    and cr: "count_if is_target_card r = count_if is_target_card []" by auto
  from ms have ms': "mset h2 + mset r = mset h1" by simp
  then have "size (mset h2 + mset r) = size (mset h1)" by simp
  with lr lh have lh2: "length h2 = 7 - k" by simp
  from cr have cr0: "count_if is_target_card r = 0" by (simp add: count_if_def)
  from ms' have "count_if is_target_card h2 + count_if is_target_card r = count_if is_target_card h1"
    using count_if_mset [of "h2 @ r" h1 is_target_card] by (simp add: count_if_append)
  with cr0 ch have ch2: "count_if is_target_card h2 = 1" by simp
  from cr0 have "TargetCard target \<notin> set r" by (auto simp: count_if_zero_iff)
  with mem ms' have mem2: "TargetCard target \<in> set h2"
    by (metis Un_iff set_mset_mset set_mset_union)
  from cd cr0 have cd2: "count_if is_target_card (d1 @ r) = 0" by (simp add: count_if_append)
  from ld lr have ld2: "length (d1 @ r) = 33 + k" by simp
  from ml tl lh2 ld2 k have "resolve_mulligans target hand0 deck0 = Some (Inr (h2, d1 @ r, k))"
    by (simp add: resolve_mulligans_def Let_def DECK_SIZE_def)
  with k lh2 ld2 mem2 ch2 cd2 show ?thesis by blast
qed


section \<open>Mulligan Resolver: sizes and the mulligan count\<close>

text \<open>
  C1 (amended). For every valid simulation input, mulligan resolution and the trim step
  complete with some \<open>mulligan_count = k\<close> in \<open>{0, 1, 2, 3}\<close>; the kept hand then has
  exactly \<open>7 - k\<close> cards and the library exactly \<open>33 + k\<close> cards (the 39 cards built,
  less the six drawn, plus the \<open>k\<close> returned), which is what the size checks of the
  source require (\<open>DECK_SIZE - len(hand)\<close>).
\<close>

theorem mulligan_resolution_sizes:
  assumes "valid_input mv on_pips off_pips n"
  shows "\<exists>k. k \<le> 3 \<and> kept_sizes pick uids mv on_pips off_pips n = Some (k, 7 - k, 33 + k)"
proof -
  from deal_total [OF assms] obtain target hand0 deck0 where
    d: "deal pick uids mv on_pips off_pips n = Inr (target, hand0, deck0)" by blast
  from deal_Inr [OF d] have "opening_inv target hand0 deck0" by blast
  from resolve_mulligans_ok [OF this] d show ?thesis
    by (auto simp: kept_sizes_def)
qed

theorem mulligan_resolution_sizes_witness:
  "valid_input 3 1 0 1 \<and> kept_sizes (\<lambda>i. 0) (\<lambda>k. k) 3 1 0 1 = Some (2, 7 - 2, 33 + 2)"
proof -
  have v: "valid_input 3 1 0 1" by (simp add: valid_input_def)
  have e: "kept_sizes (\<lambda>i. 0) (\<lambda>k. k) 3 1 0 1 = Some (2, 5, 35)" by code_simp
  from mulligan_resolution_sizes [OF v, of "\<lambda>i. 0" "\<lambda>k. k"] v e show ?thesis by simp
qed

text \<open>
  The specification gives the library \<open>38 + k\<close> cards. On the input below two
  mulligans are taken and the library has 35 cards, not 40.
\<close>

theorem library_size_38_counterexample:
  "kept_sizes (\<lambda>i. 0) (\<lambda>k. k) 3 1 0 1 = Some (2, 5, 35) \<and> (35::nat) \<noteq> 38 + 2"
proof -
  have "kept_sizes (\<lambda>i. 0) (\<lambda>k. k) 3 1 0 1 = Some (2, 5, 35)" by code_simp
  then show ?thesis by simp
qed

text \<open>
  C5. Whatever the hand and the library, the mulligan loop started at
  \<open>mulligan_count = 0\<close> stops with a count in \<open>{0, 1, 2, 3}\<close>; and whenever the resolver
  returns (it has passed its hand-size check), the kept hand has at least four cards.
\<close>

theorem mulligan_count_at_most_three:
  "(mulligan_loop target hnd dck 0 = Inr (h, d, k) \<longrightarrow> k \<in> {0, 1, 2, 3})
   \<and> (resolve_mulligans target hnd dck = Some (Inr (h', d', k'))
        \<longrightarrow> k' \<in> {0, 1, 2, 3} \<and> 4 \<le> length h')"
proof (rule conjI; rule impI)
  assume "mulligan_loop target hnd dck 0 = Inr (h, d, k)"
  from mulligan_loop_bound [OF this] show "k \<in> {0, 1, 2, 3}" by auto
next
  assume r: "resolve_mulligans target hnd dck = Some (Inr (h', d', k'))"
  then obtain h1 d1 where ml: "mulligan_loop target hnd dck 0 = Inr (h1, d1, k')"
    and len: "int (length h') = 7 - int k'"
    by (auto simp: resolve_mulligans_def Let_def split: sum.splits option.splits if_splits)
  from mulligan_loop_bound [OF ml] have "k' \<le> 3" by simp
  with len show "k' \<in> {0, 1, 2, 3} \<and> 4 \<le> length h'" by auto
qed

theorem mulligan_count_at_most_three_witness:
  "mulligan_loop demo_target demo_hand demo_deck 0
     = Inr (map OtherCard [19..<23] @ [Land 23 False, Land 24 False, TargetCard demo_target],
            map (\<lambda>i. Land i False) [25..<39] @ [Land 39 True] @ map OtherCard [1..<19], 3)
   \<and> (3::nat) \<in> {0, 1, 2, 3}
   \<and> resolve_mulligans demo_target demo_hand demo_deck
     = Some (Inr ([OtherCard 22, Land 23 False, Land 24 False, TargetCard demo_target],
            map (\<lambda>i. Land i False) [25..<39] @ [Land 39 True] @ map OtherCard [1..<22], 3))
   \<and> 4 \<le> length [OtherCard 22, Land 23 False, Land 24 False, TargetCard demo_target]"
proof -
  have a: "mulligan_loop demo_target demo_hand demo_deck 0
     = Inr (map OtherCard [19..<23] @ [Land 23 False, Land 24 False, TargetCard demo_target],
            map (\<lambda>i. Land i False) [25..<39] @ [Land 39 True] @ map OtherCard [1..<19], 3)"
    by code_simp
  have b: "resolve_mulligans demo_target demo_hand demo_deck
     = Some (Inr ([OtherCard 22, Land 23 False, Land 24 False, TargetCard demo_target],
            map (\<lambda>i. Land i False) [25..<39] @ [Land 39 True] @ map OtherCard [1..<22], 3))"
    by code_simp
  from mulligan_count_at_most_three [of demo_target demo_hand demo_deck _ _ 3 _ _ 3] a b
  show ?thesis by simp
qed


section \<open>Turn Engine: one iteration\<close>

lemma land_kinds:
  "is_on_color_land c \<Longrightarrow> is_land c"
  "is_off_color_land c \<Longrightarrow> is_land c"
  by (cases c; simp)+

lemma play_land_ok:
  assumes "list_ex p h" and "\<And>c. p c \<Longrightarrow> is_land c"
  shows "\<exists>land. play_land p h b = Inr (remove1 land h, b @ [land], True)
           \<and> land \<in> set h \<and> is_land land"
proof -
  from take_first_ok [OF assms(1)] obtain c where
    "take_first p h = Inr (c, remove1 c h)" "p c" "c \<in> set h" by blast
  with assms(2) show ?thesis by (auto simp: play_land_def)
qed

lemma land_drop_step_ok:
  "\<exists>h' played ld. land_drop_step target h b = Inr (h', b @ played, ld)
      \<and> length played \<le> 1 \<and> list_all is_land played \<and> mset h' + mset played = mset h"
proof -
  have none: "\<exists>h' played ld. Inr (h, b, False) = (Inr (h', b @ played, ld) :: error + _)
      \<and> length played \<le> 1 \<and> list_all is_land played \<and> mset h' + mset played = mset h"
    by (rule exI [of _ h], rule exI [of _ "[]"], rule exI [of _ False]) simp
  have some: "\<exists>h' played ld. play_land p h b = Inr (h', b @ played, ld)
      \<and> length played \<le> 1 \<and> list_all is_land played \<and> mset h' + mset played = mset h"
    if "list_ex p h" "\<And>c. p c \<Longrightarrow> is_land c" for p
  proof -
    from play_land_ok [OF that, of b] obtain land where
      l: "play_land p h b = Inr (remove1 land h, b @ [land], True)" "land \<in> set h" "is_land land"
      by blast
    show ?thesis
      by (rule exI [of _ "remove1 land h"], rule exI [of _ "[land]"], rule exI [of _ True])
         (use l in simp)
  qed
  show ?thesis
    unfolding land_drop_step_def Let_def
    using none some [of is_on_color_land] some [of is_off_color_land] some [of is_land]
    by (simp add: land_kinds)
qed

lemma draw_step_ok:
  "if deck g = [] then draw_step g = Inr None
   else \<exists>g1. draw_step g = Inr (Some g1)"
  by (cases "deck g") (auto simp: draw_step_def draw_n_def)

lemma turn_step_ok:
  "(deck g = [] \<and> turn_step target g = Inr (Break, g))
   \<or> (deck g \<noteq> []
       \<and> (\<exists>g'. turn_effect g g'
             \<and> (turn_step target g = Inr (Return, g') \<and> castable target (board g')
                   \<and> turn g' = turn g
                 \<or> turn_step target g = Inr (Continue, g') \<and> \<not> castable target (board g')
                   \<and> turn g' = turn g + 1)))"
proof (cases "deck g = []")
  case True
  with draw_step_ok [of g] show ?thesis by (simp add: turn_step_def)
next
  case False
  with draw_step_ok [of g] obtain g1 where d: "draw_step g = Inr (Some g1)" by auto
  note ds = draw_step_Some [OF d]
  from land_drop_step_ok [of target "hand g1" "board g1"] obtain h' played ld where
    l: "land_drop_step target (hand g1) (board g1) = Inr (h', board g1 @ played, ld)"
    and p: "length played \<le> 1" "list_all is_land played" "mset h' + mset played = mset (hand g1)"
    by blast
  define g2 where "g2 = g1\<lparr>hand := h', board := board g1 @ played\<rparr>"
  define drawn where "drawn = (if turn g > 1 then [hd (deck g)] else [])"
  from ds have dd: "deck g = drawn @ deck g1" "mset (hand g1) = mset (hand g) + mset drawn"
    by (auto simp: drawn_def)
  have eff: "turn_effect g (g2\<lparr>turn := t\<rparr>)" for t
    unfolding turn_effect_def
    by (rule exI [of _ drawn], rule exI [of _ played])
       (use dd p ds in \<open>simp add: g2_def drawn_def\<close>)
  from eff [of "turn g2"] have eff2: "turn_effect g g2" by simp
  show ?thesis
  proof (cases "castable target (board g2)")
    case True
    with d l have "turn_step target g = Inr (Return, g2)"
      by (simp add: turn_step_def g2_def Let_def)
    with True eff2 ds False show ?thesis by (auto simp: g2_def)
  next
    case F: False
    with d l have "turn_step target g = Inr (Continue, g2\<lparr>turn := turn g2 + 1\<rparr>)"
      by (simp add: turn_step_def g2_def Let_def)
    with F eff [of "turn g2 + 1"] ds False show ?thesis
      by (intro disjI2 conjI exI [of _ "g2\<lparr>turn := turn g2 + 1\<rparr>"]) (auto simp: g2_def)
  qed
qed


section \<open>Turn Engine: the loop\<close>

lemma turn_step_Break:
  "turn_step target g = Inr (Break, g') \<Longrightarrow> g' = g \<and> deck g = []"
  using turn_step_ok [of g target] by auto

lemma turn_step_Return:
  "turn_step target g = Inr (Return, g') \<Longrightarrow>
     turn_effect g g' \<and> castable target (board g') \<and> turn g' = turn g \<and> deck g \<noteq> []"
  using turn_step_ok [of g target] by auto

lemma turn_step_Continue:
  "turn_step target g = Inr (Continue, g') \<Longrightarrow>
     turn_effect g g' \<and> \<not> castable target (board g') \<and> turn g' = turn g + 1 \<and> deck g \<noteq> []"
  using turn_step_ok [of g target] by auto

lemma turn_step_Inr: "\<exists>c g'. turn_step target g = Inr (c, g')"
  using turn_step_ok [of g target] by auto

lemma turn_effect_bound:
  assumes "turn_effect g g'"
  shows "length (deck g') + (if turn g > 1 then 1 else 0) = length (deck g)"
proof -
  from assms obtain drawn where d: "deck g = drawn @ deck g'"
    and l: "length drawn = (if turn g > 1 then 1 else 0)"
    by (auto simp: turn_effect_def)
  have "length (deck g) = length (drawn @ deck g')" by (simp only: d [symmetric])
  with l show ?thesis by simp
qed

lemma count_if_list_all: "list_all p xs \<Longrightarrow> (\<And>c. p c \<Longrightarrow> \<not> q c) \<Longrightarrow> count_if q xs = 0"
  by (auto simp: count_if_zero_iff list_all_iff)

lemma turn_effect_inv:
  assumes "turn_effect g g'" and "game_inv target g"
  shows "game_inv target g'"
proof -
  from assms(1) obtain drawn played where
    d: "deck g = drawn @ deck g'" and b: "board g' = board g @ played"
    and l: "list_all is_land played"
    and m: "mset (hand g') + mset played = mset (hand g) + mset drawn"
    by (auto simp: turn_effect_def)
  from assms(2) have mem: "TargetCard target \<in> set (hand g)"
    and ch: "count_if is_target_card (hand g) = 1"
    and cd: "count_if is_target_card (deck g) = 0" and bl: "list_all is_land (board g)"
    by (simp_all add: game_inv_def)
  from cd d have cdr: "count_if is_target_card drawn = 0" and cd': "count_if is_target_card (deck g') = 0"
    by (simp_all add: count_if_append)
  from l have cp: "count_if is_target_card played = 0"
    by (rule count_if_list_all) (rule target_not_other(4))
  from m have "mset (hand g' @ played) = mset (hand g @ drawn)" by simp
  from count_if_mset [OF this, of is_target_card] ch cdr cp
  have ch': "count_if is_target_card (hand g') = 1" by (simp add: count_if_append)
  from cp have "TargetCard target \<notin> set played" by (auto simp: count_if_zero_iff)
  moreover from mem m have "TargetCard target \<in> set (hand g') \<union> set played"
    by (metis Un_iff set_mset_mset set_mset_union)
  ultimately have mem': "TargetCard target \<in> set (hand g')" by simp
  from b bl l have "list_all is_land (board g')" by simp
  with mem' ch' cd' show ?thesis by (simp add: game_inv_def)
qed

lemma game_at_props:
  "game_at target g i = Some gi \<Longrightarrow>
     turn gi = turn g + i
     \<and> length (deck gi) + max (turn gi) 2 \<le> length (deck g) + max (turn g) 2
     \<and> (game_inv target g \<longrightarrow> game_inv target gi)
     \<and> (\<exists>played. board gi = board g @ played \<and> length played \<le> i \<and> list_all is_land played)"
proof (induction i arbitrary: g)
  case 0
  then show ?case by simp
next
  case (Suc i)
  from Suc.prems obtain g1 where s: "turn_step target g = Inr (Continue, g1)"
    and a: "game_at target g1 i = Some gi"
    by (auto split: sum.splits control.splits prod.splits)
  note c = turn_step_Continue [OF s]
  from c obtain p1 where p1: "board g1 = board g @ p1" "length p1 \<le> 1" "list_all is_land p1"
    by (auto simp: turn_effect_def)
  from Suc.IH [OF a] obtain p2 where ih: "turn gi = turn g1 + i"
    "length (deck gi) + max (turn gi) 2 \<le> length (deck g1) + max (turn g1) 2"
    "game_inv target g1 \<longrightarrow> game_inv target gi"
    and p2: "board gi = board g1 @ p2" "length p2 \<le> i" "list_all is_land p2"
    by blast
  from c turn_effect_bound [of g g1]
  have "length (deck g1) + max (turn g1) 2 \<le> length (deck g) + max (turn g) 2"
    by (auto split: if_splits)
  with ih(2) have 2: "length (deck gi) + max (turn gi) 2 \<le> length (deck g) + max (turn g) 2"
    by simp
  from c ih(1) have 1: "turn gi = turn g + Suc i" by simp
  from c ih(3) turn_effect_inv [of g g1 target] have 3: "game_inv target g \<longrightarrow> game_inv target gi"
    by blast
  from p1 p2 have "board gi = board g @ (p1 @ p2) \<and> length (p1 @ p2) \<le> Suc i
     \<and> list_all is_land (p1 @ p2)" by simp
  then have 4: "\<exists>played. board gi = board g @ played \<and> length played \<le> Suc i
     \<and> list_all is_land played" by blast
  from 1 2 3 4 show ?case by blast
qed

lemma game_at_earlier:
  "game_at target g i = Some gi \<Longrightarrow> j < i \<Longrightarrow>
     \<exists>gj gj'. game_at target g j = Some gj \<and> turn_step target gj = Inr (Continue, gj')
             \<and> game_at target g (Suc j) = Some gj'"
proof (induction j arbitrary: g i)
  case 0
  then obtain i' where "i = Suc i'" by (cases i) auto
  with "0.prems" show ?case
    by (auto split: sum.splits control.splits prod.splits)
next
  case (Suc j)
  then obtain i' where i: "i = Suc i'" "j < i'" by (cases i) auto
  with Suc.prems obtain g1 where s: "turn_step target g = Inr (Continue, g1)"
    and a: "game_at target g1 i' = Some gi"
    by (auto split: sum.splits control.splits prod.splits)
  from Suc.IH [OF a i(2)] s show ?case by simp
qed

lemma turn_loop_ok:
  "\<exists>ct g' i gi. turn_loop target g = Inr (ct, g') \<and> game_at target g i = Some gi
      \<and> (ct = None \<and> turn_step target gi = Inr (Break, g')
          \<or> ct = Some (turn gi) \<and> turn_step target gi = Inr (Return, g'))"
proof (induction "turns_left g" arbitrary: g rule: less_induct)
  case less
  from turn_step_Inr [of target g] obtain c g1 where s: "turn_step target g = Inr (c, g1)" by blast
  show ?case
  proof (cases c)
    case Break
    with s have "turn_loop target g = Inr (None, g1)" by (subst turn_loop.simps) simp
    moreover have "game_at target g 0 = Some g" by simp
    ultimately show ?thesis using s Break by blast
  next
    case Return
    with s have "turn_loop target g = Inr (Some (turn g1), g1)" by (subst turn_loop.simps) simp
    moreover have "game_at target g 0 = Some g" by simp
    moreover from s Return turn_step_Return [of target g g1] have "turn g1 = turn g" by simp
    ultimately show ?thesis using s Return by metis
  next
    case Continue
    with s have s': "turn_step target g = Inr (Continue, g1)" by simp
    from less [OF turn_step_Continue_measure [OF s']] obtain ct g' i gi where
      r: "turn_loop target g1 = Inr (ct, g')" "game_at target g1 i = Some gi"
      "ct = None \<and> turn_step target gi = Inr (Break, g')
          \<or> ct = Some (turn gi) \<and> turn_step target gi = Inr (Return, g')" by blast
    from s' r(1) have "turn_loop target g = Inr (ct, g')" by (subst turn_loop.simps) simp
    moreover from s' r(2) have "game_at target g (Suc i) = Some gi" by simp
    ultimately show ?thesis using r(3) by blast
  qed
qed


lemma get_is_on_color_eq: "get_is_on_color = is_on_color_land"
proof
  fix c show "get_is_on_color c = is_on_color_land c" by (cases c) simp_all
qed

lemma count_off_lands:
  "list_all is_land b \<Longrightarrow> count_if (\<lambda>c. \<not> get_is_on_color c) b = count_if is_off_color_land b"
proof (induction b)
  case Nil
  then show ?case by (simp add: count_if_def)
next
  case (Cons c b)
  then show ?case by (cases c) (simp_all add: count_if_def)
qed

lemma castable_iff:
  assumes "list_all is_land b"
  shows "castable target b \<longleftrightarrow>
     on_color_pips target \<le> int (count_if is_on_color_land b)
     \<and> off_color_pips target \<le> int (count_if is_off_color_land b)
     \<and> mana_value target \<le> int (count_if is_on_color_land b + count_if is_off_color_land b)"
  using count_off_lands [OF assms]
  by (simp add: castable_def Let_def get_is_on_color_eq)

lemma start_game_simps:
  "hand (start_game h d) = h" "deck (start_game h d) = d"
  "board (start_game h d) = []" "turn (start_game h d) = 1"
  by (simp_all add: start_game_def)

lemma game_at_board_lands:
  assumes "game_at target (start_game h d) i = Some gi"
  shows "list_all is_land (board gi) \<and> turn gi = Suc i"
  using game_at_props [OF assms] by (auto simp: start_game_simps)

lemma step_board_lands:
  assumes "turn_effect g g'" "list_all is_land (board g)"
  shows "list_all is_land (board g')"
  using assms by (auto simp: turn_effect_def)

lemma small_game_runs:
  "turn_loop demo_target (start_game small_hand small_deck) = Inr (Some 2, after_turn_2)"
  "turn_step demo_target (start_game small_hand small_deck) = Inr (Continue, after_turn_1)"
  "turn_step demo_target after_turn_1 = Inr (Return, after_turn_2)"
  "game_at demo_target (start_game small_hand small_deck) 0 = Some (start_game small_hand small_deck)"
  "game_at demo_target (start_game small_hand small_deck) 1 = Some after_turn_1"
  by code_simp+

lemma start_game_inv:
  assumes "TargetCard target \<in> set h" "count_if is_target_card h = 1" "count_if is_target_card d = 0"
  shows "game_inv target (start_game h d)"
  using assms by (simp add: game_inv_def start_game_simps)

lemma game_inv_target:
  assumes "game_inv target g"
  shows "TargetCard target \<in> set (hand g) \<and> TargetCard target \<notin> set (deck g)
         \<and> TargetCard target \<notin> set (board g)"
proof -
  from assms have "TargetCard target \<in> set (hand g)" "count_if is_target_card (deck g) = 0"
    "list_all is_land (board g)" by (simp_all add: game_inv_def)
  then show ?thesis by (auto simp: count_if_zero_iff list_all_iff)
qed

lemma turn_loop_run:
  assumes "length d \<le> 36"
  shows "\<exists>ct g' i gi. turn_loop target (start_game h d) = Inr (ct, g')
      \<and> game_at target (start_game h d) i = Some gi \<and> turn gi = i + 1 \<and> turn gi \<le> 38
      \<and> (ct = None \<and> turn_step target gi = Inr (Break, g') \<and> deck g' = []
          \<or> ct = Some (turn gi) \<and> turn_step target gi = Inr (Return, g')
             \<and> castable target (board g') \<and> turn gi \<le> 37)
      \<and> (game_inv target (start_game h d) \<longrightarrow> game_inv target gi \<and> game_inv target g')"
proof -
  let ?g = "start_game h d"
  from turn_loop_ok [of target ?g] obtain ct g' i gi where
    r: "turn_loop target ?g = Inr (ct, g')" and a: "game_at target ?g i = Some gi"
    and e: "ct = None \<and> turn_step target gi = Inr (Break, g')
          \<or> ct = Some (turn gi) \<and> turn_step target gi = Inr (Return, g')" by blast
  from game_at_props [OF a] have t: "turn gi = i + 1"
    and b: "length (deck gi) + max (turn gi) 2 \<le> length d + 2"
    and inv: "game_inv target ?g \<longrightarrow> game_inv target gi"
    by (auto simp: start_game_simps)
  from b assms have t38: "turn gi \<le> 38" by simp
  from e have f: "(ct = None \<and> turn_step target gi = Inr (Break, g') \<and> deck g' = []
          \<or> ct = Some (turn gi) \<and> turn_step target gi = Inr (Return, g')
             \<and> castable target (board g') \<and> turn gi \<le> 37)
      \<and> (game_inv target gi \<longrightarrow> game_inv target g')"
  proof
    assume x: "ct = None \<and> turn_step target gi = Inr (Break, g')"
    with turn_step_Break [of target gi g'] show ?thesis by simp
  next
    assume x: "ct = Some (turn gi) \<and> turn_step target gi = Inr (Return, g')"
    with turn_step_Return [of target gi g'] have c: "castable target (board g')"
      and ne: "deck gi \<noteq> []" and eff: "turn_effect gi g'" by simp_all
    from ne have "1 \<le> length (deck gi)" by (cases "deck gi") simp_all
    with b assms have "turn gi \<le> 37" by simp
    with x c turn_effect_inv [OF eff, of target] show ?thesis by blast
  qed
  with r a t t38 inv show ?thesis by blast
qed

section \<open>Turn Engine: cast turn, board, termination\<close>

text \<open>
  C2. When the Turn Engine, started on the kept hand and library with an empty board at
  turn 1, returns the cast turn \<open>t\<close>: iteration \<open>t - 1\<close> of the loop is turn \<open>t\<close> and
  ends in the \<^verbatim>\<open>return\<close>; the board after that turn's land drop has at least the required
  on-color lands, at least the required off-color lands, and at least as many lands as
  the mana value; and at every earlier turn \<open>t'\<close> the loop went on to the next turn and
  the board after the land drop of \<open>t'\<close> failed this three-part condition.
\<close>

theorem cast_turn_is_first_castable_turn:
  assumes "turn_loop target (start_game h d) = Inr (Some t, g')"
  shows "1 \<le> t
     \<and> (\<exists>gt. game_at target (start_game h d) (t - 1) = Some gt \<and> turn gt = t
            \<and> turn_step target gt = Inr (Return, g'))
     \<and> on_color_pips target \<le> int (count_if is_on_color_land (board g'))
     \<and> off_color_pips target \<le> int (count_if is_off_color_land (board g'))
     \<and> mana_value target
          \<le> int (count_if is_on_color_land (board g') + count_if is_off_color_land (board g'))
     \<and> (\<forall>t'. 1 \<le> t' \<and> t' < t \<longrightarrow>
           (\<exists>gj gj'. game_at target (start_game h d) (t' - 1) = Some gj \<and> turn gj = t'
              \<and> turn_step target gj = Inr (Continue, gj')
              \<and> \<not> (on_color_pips target \<le> int (count_if is_on_color_land (board gj'))
                    \<and> off_color_pips target \<le> int (count_if is_off_color_land (board gj'))
                    \<and> mana_value target
                         \<le> int (count_if is_on_color_land (board gj')
                                 + count_if is_off_color_land (board gj')))))"
proof -
  let ?g = "start_game h d"
  from turn_loop_ok [of target ?g] assms obtain i gi where
    a: "game_at target ?g i = Some gi" and t: "t = turn gi"
    and s: "turn_step target gi = Inr (Return, g')"
    by auto
  from game_at_board_lands [OF a] have bl: "list_all is_land (board gi)" and ti: "turn gi = Suc i"
    by simp_all
  from turn_step_Return [OF s] have eff: "turn_effect gi g'" and c: "castable target (board g')"
    by simp_all
  from step_board_lands [OF eff bl] have bl': "list_all is_land (board g')" .
  from t ti have 1: "1 \<le> t" and i: "i = t - 1" by simp_all
  from a s t i have 2: "\<exists>gt. game_at target ?g (t - 1) = Some gt \<and> turn gt = t
            \<and> turn_step target gt = Inr (Return, g')" by auto
  from c castable_iff [OF bl', of target]
  have 3: "on_color_pips target \<le> int (count_if is_on_color_land (board g'))
     \<and> off_color_pips target \<le> int (count_if is_off_color_land (board g'))
     \<and> mana_value target
          \<le> int (count_if is_on_color_land (board g') + count_if is_off_color_land (board g'))"
    by simp
  have 4: "\<exists>gj gj'. game_at target ?g (t' - 1) = Some gj \<and> turn gj = t'
              \<and> turn_step target gj = Inr (Continue, gj')
              \<and> \<not> (on_color_pips target \<le> int (count_if is_on_color_land (board gj'))
                    \<and> off_color_pips target \<le> int (count_if is_off_color_land (board gj'))
                    \<and> mana_value target
                         \<le> int (count_if is_on_color_land (board gj')
                                 + count_if is_off_color_land (board gj')))"
    if t': "1 \<le> t'" "t' < t" for t'
  proof -
    from t' i have "t' - 1 < i" by simp
    from game_at_earlier [OF a this] obtain gj gj' where
      aj: "game_at target ?g (t' - 1) = Some gj"
      and sj: "turn_step target gj = Inr (Continue, gj')" by blast
    from game_at_board_lands [OF aj] t' have blj: "list_all is_land (board gj)"
      and tj: "turn gj = t'" by simp_all
    from turn_step_Continue [OF sj] have ej: "turn_effect gj gj'"
      and nc: "\<not> castable target (board gj')" by simp_all
    from step_board_lands [OF ej blj] have "list_all is_land (board gj')" .
    from nc castable_iff [OF this, of target] aj sj tj show ?thesis by blast
  qed
  from 1 2 3 4 show ?thesis by blast
qed

theorem cast_turn_is_first_castable_turn_witness:
  "turn_loop demo_target (start_game small_hand small_deck) = Inr (Some 2, after_turn_2)
   \<and> on_color_pips demo_target \<le> int (count_if is_on_color_land (board after_turn_2))
   \<and> off_color_pips demo_target \<le> int (count_if is_off_color_land (board after_turn_2))
   \<and> mana_value demo_target
        \<le> int (count_if is_on_color_land (board after_turn_2)
                + count_if is_off_color_land (board after_turn_2))
   \<and> (\<exists>gj gj'. game_at demo_target (start_game small_hand small_deck) (1 - 1) = Some gj
          \<and> turn gj = 1 \<and> turn_step demo_target gj = Inr (Continue, gj')
          \<and> \<not> (on_color_pips demo_target \<le> int (count_if is_on_color_land (board gj'))
                \<and> off_color_pips demo_target \<le> int (count_if is_off_color_land (board gj'))
                \<and> mana_value demo_target
                     \<le> int (count_if is_on_color_land (board gj')
                             + count_if is_off_color_land (board gj'))))"
proof -
  note r = small_game_runs(1)
  from cast_turn_is_first_castable_turn [OF r] have
    "\<forall>t'. 1 \<le> t' \<and> t' < (2::nat) \<longrightarrow>
       (\<exists>gj gj'. game_at demo_target (start_game small_hand small_deck) (t' - 1) = Some gj
          \<and> turn gj = t' \<and> turn_step demo_target gj = Inr (Continue, gj')
          \<and> \<not> (on_color_pips demo_target \<le> int (count_if is_on_color_land (board gj'))
                \<and> off_color_pips demo_target \<le> int (count_if is_off_color_land (board gj'))
                \<and> mana_value demo_target
                     \<le> int (count_if is_on_color_land (board gj')
                             + count_if is_off_color_land (board gj'))))"
    by blast
  from this [rule_format, of 1] cast_turn_is_first_castable_turn [OF r] r
  show ?thesis by simp
qed

text \<open>
  C6. An iteration of the turn loop, however it ends, appends at most one card to the
  board, a land that leaves the hand (the hand otherwise only gains the card drawn), so
  the length of the board and its counts of on-color and off-color lands do not decrease;
  and from the top of one iteration to the top of one \<open>n\<close> turns later the board only
  grows at its end, by at most \<open>n\<close> lands.
\<close>

theorem board_append_only:
  "(turn_step target g = Inr (c, g') \<longrightarrow>
      (\<exists>played. board g' = board g @ played \<and> length played \<le> 1 \<and> list_all is_land played
          \<and> (\<exists>drawn. mset (hand g') + mset played = mset (hand g) + mset drawn
                \<and> deck g = drawn @ deck g'))
      \<and> length (board g) \<le> length (board g')
      \<and> count_if is_on_color_land (board g) \<le> count_if is_on_color_land (board g')
      \<and> count_if is_off_color_land (board g) \<le> count_if is_off_color_land (board g'))
   \<and> (game_at target g i = Some gi \<and> game_at target gi n = Some gj \<longrightarrow>
      (\<exists>played. board gj = board gi @ played \<and> length played \<le> n \<and> list_all is_land played)
      \<and> length (board gi) \<le> length (board gj)
      \<and> count_if is_on_color_land (board gi) \<le> count_if is_on_color_land (board gj)
      \<and> count_if is_off_color_land (board gi) \<le> count_if is_off_color_land (board gj))"
proof (rule conjI; rule impI)
  assume s: "turn_step target g = Inr (c, g')"
  have "\<exists>played. board g' = board g @ played \<and> length played \<le> 1 \<and> list_all is_land played
          \<and> (\<exists>drawn. mset (hand g') + mset played = mset (hand g) + mset drawn
                \<and> deck g = drawn @ deck g')"
  proof (cases c)
    case Break
    with s turn_step_Break [of target g g'] have "g' = g" by simp
    then have "board g' = board g @ [] \<and> length ([]::card list) \<le> 1 \<and> list_all is_land []
          \<and> (mset (hand g') + mset [] = mset (hand g) + mset ([]::card list)
                \<and> deck g = [] @ deck g')" by simp
    then show ?thesis by blast
  next
    case Return
    with s turn_step_Return [of target g g'] have "turn_effect g g'" by simp
    then show ?thesis unfolding turn_effect_def by blast
  next
    case Continue
    with s turn_step_Continue [of target g g'] have "turn_effect g g'" by simp
    then show ?thesis unfolding turn_effect_def by blast
  qed
  then obtain played where p: "board g' = board g @ played" "length played \<le> 1"
    "list_all is_land played"
    "\<exists>drawn. mset (hand g') + mset played = mset (hand g) + mset drawn \<and> deck g = drawn @ deck g'"
    by blast
  from p(1) have "length (board g) \<le> length (board g')"
    "count_if is_on_color_land (board g) \<le> count_if is_on_color_land (board g')"
    "count_if is_off_color_land (board g) \<le> count_if is_off_color_land (board g')"
    by (simp_all add: count_if_append)
  with p show "(\<exists>played. board g' = board g @ played \<and> length played \<le> 1 \<and> list_all is_land played
          \<and> (\<exists>drawn. mset (hand g') + mset played = mset (hand g) + mset drawn
                \<and> deck g = drawn @ deck g'))
      \<and> length (board g) \<le> length (board g')
      \<and> count_if is_on_color_land (board g) \<le> count_if is_on_color_land (board g')
      \<and> count_if is_off_color_land (board g) \<le> count_if is_off_color_land (board g')"
    by blast
next
  assume "game_at target g i = Some gi \<and> game_at target gi n = Some gj"
  then have "game_at target gi n = Some gj" by simp
  from game_at_props [OF this] obtain played where p: "board gj = board gi @ played"
    "length played \<le> n" "list_all is_land played" by blast
  from p(1) have "length (board gi) \<le> length (board gj)"
    "count_if is_on_color_land (board gi) \<le> count_if is_on_color_land (board gj)"
    "count_if is_off_color_land (board gi) \<le> count_if is_off_color_land (board gj)"
    by (simp_all add: count_if_append)
  with p show "(\<exists>played. board gj = board gi @ played \<and> length played \<le> n \<and> list_all is_land played)
      \<and> length (board gi) \<le> length (board gj)
      \<and> count_if is_on_color_land (board gi) \<le> count_if is_on_color_land (board gj)
      \<and> count_if is_off_color_land (board gi) \<le> count_if is_off_color_land (board gj)"
    by blast
qed

theorem board_append_only_witness:
  "turn_step demo_target (start_game small_hand small_deck) = Inr (Continue, after_turn_1)
   \<and> (\<exists>played. board after_turn_1 = board (start_game small_hand small_deck) @ played
         \<and> length played \<le> 1 \<and> list_all is_land played
         \<and> (\<exists>drawn. mset (hand after_turn_1) + mset played
                      = mset (hand (start_game small_hand small_deck)) + mset drawn
               \<and> deck (start_game small_hand small_deck) = drawn @ deck after_turn_1))
   \<and> count_if is_on_color_land (board (start_game small_hand small_deck))
        \<le> count_if is_on_color_land (board after_turn_1)
   \<and> count_if is_off_color_land (board (start_game small_hand small_deck))
        \<le> count_if is_off_color_land (board after_turn_1)
   \<and> game_at demo_target (start_game small_hand small_deck) 0
        = Some (start_game small_hand small_deck)
   \<and> game_at demo_target (start_game small_hand small_deck) 1 = Some after_turn_1
   \<and> (\<exists>played. board after_turn_1 = board (start_game small_hand small_deck) @ played
         \<and> length played \<le> 1 \<and> list_all is_land played)
   \<and> length (board (start_game small_hand small_deck)) \<le> length (board after_turn_1)"
  using board_append_only [where target = demo_target
          and g = "start_game small_hand small_deck" and c = Continue and g' = after_turn_1
          and i = 0 and gi = "start_game small_hand small_deck" and n = 1 and gj = after_turn_1]
        small_game_runs
  by simp


text \<open>
  C7. For every valid simulation input the trial reaches the Turn Engine, and the turn
  loop returns: it leaves through the \<^verbatim>\<open>break\<close> of an empty deck (no cast turn) or
  through the \<^verbatim>\<open>return\<close> of a castable board (the cast turn is the current turn), and
  raises nothing. The loop is at turn 38 at the latest when it leaves, and a cast happens
  at turn 37 at the latest: the library has at most 36 cards and every turn after the
  first draws one.
\<close>

theorem turn_engine_terminates:
  assumes "valid_input mv on_pips off_pips n"
  shows "\<exists>target hand0 deck0 h d k ct g' i gi.
      deal pick uids mv on_pips off_pips n = Inr (target, hand0, deck0)
      \<and> resolve_mulligans target hand0 deck0 = Some (Inr (h, d, k))
      \<and> turn_loop target (start_game h d) = Inr (ct, g')
      \<and> game_at target (start_game h d) i = Some gi \<and> turn gi = i + 1 \<and> turn gi \<le> 38
      \<and> (ct = None \<and> turn_step target gi = Inr (Break, g') \<and> deck g' = []
          \<or> ct = Some (turn gi) \<and> turn_step target gi = Inr (Return, g')
             \<and> castable target (board g') \<and> turn gi \<le> 37)"
proof -
  from deal_total [OF assms] obtain target hand0 deck0 where
    dl: "deal pick uids mv on_pips off_pips n = Inr (target, hand0, deck0)" by blast
  from deal_Inr [OF dl] have "opening_inv target hand0 deck0" by blast
  from resolve_mulligans_ok [OF this] obtain h d k where
    rm: "resolve_mulligans target hand0 deck0 = Some (Inr (h, d, k))" and "k \<le> 3"
    "length d = 33 + k" by blast
  then have "length d \<le> 36" by simp
  from turn_loop_run [OF this, of target h] dl rm show ?thesis by blast
qed

theorem turn_engine_terminates_witness:
  "valid_input 3 1 0 1
   \<and> (\<exists>target hand0 deck0 h d k ct g' i gi.
      deal (\<lambda>i. 0) (\<lambda>k. k) 3 1 0 1 = Inr (target, hand0, deck0)
      \<and> resolve_mulligans target hand0 deck0 = Some (Inr (h, d, k))
      \<and> turn_loop target (start_game h d) = Inr (ct, g')
      \<and> game_at target (start_game h d) i = Some gi \<and> turn gi = i + 1 \<and> turn gi \<le> 38
      \<and> (ct = None \<and> turn_step target gi = Inr (Break, g') \<and> deck g' = []
          \<or> ct = Some (turn gi) \<and> turn_step target gi = Inr (Return, g')
             \<and> castable target (board g') \<and> turn gi \<le> 37))"
proof -
  have v: "valid_input 3 1 0 1" by (simp add: valid_input_def)
  from turn_engine_terminates [OF v, of "\<lambda>i. 0" "\<lambda>k. k"] v show ?thesis by blast
qed

section \<open>The target card stays in the hand\<close>

text \<open>
  C10. For a trial that has dealt its opening hand: hand and library satisfy the opening
  invariant (the target card is in the hand and no target card is in the library); a
  mulligan taken in such a position succeeds and leads to such a position again, and so
  does the whole mulligan loop; after the trim step the target card is in the kept hand
  and not in the library; and at the top of every iteration of the turn loop and when the
  loop has ended, the target card is in the hand and neither in the deck nor on the
  board.
\<close>

theorem target_card_stays_in_hand:
  assumes "deal pick uids mv on_pips off_pips n = Inr (target, hand0, deck0)"
  shows "opening_inv target hand0 deck0
     \<and> (\<forall>h d. opening_inv target h d \<longrightarrow>
           TargetCard target \<in> set h \<and> TargetCard target \<notin> set d
           \<and> (\<exists>h' d'. mulligan target h d = Inr (h', d') \<and> opening_inv target h' d'))
     \<and> (\<exists>h1 d1 k1. mulligan_loop target hand0 deck0 0 = Inr (h1, d1, k1)
           \<and> opening_inv target h1 d1)
     \<and> (\<exists>h d k. resolve_mulligans target hand0 deck0 = Some (Inr (h, d, k))
           \<and> TargetCard target \<in> set h \<and> TargetCard target \<notin> set d
           \<and> (\<forall>i gi. game_at target (start_game h d) i = Some gi \<longrightarrow>
                 TargetCard target \<in> set (hand gi) \<and> TargetCard target \<notin> set (deck gi)
                 \<and> TargetCard target \<notin> set (board gi))
           \<and> (\<exists>ct g'. turn_loop target (start_game h d) = Inr (ct, g')
                 \<and> TargetCard target \<in> set (hand g') \<and> TargetCard target \<notin> set (deck g')
                 \<and> TargetCard target \<notin> set (board g')))"
proof -
  let ?T = "TargetCard target"
  from deal_Inr [OF assms] have o: "opening_inv target hand0 deck0" by blast
  have 2: "\<forall>h d. opening_inv target h d \<longrightarrow>
           ?T \<in> set h \<and> ?T \<notin> set d
           \<and> (\<exists>h' d'. mulligan target h d = Inr (h', d') \<and> opening_inv target h' d')"
  proof (intro allI impI)
    fix h d assume i: "opening_inv target h d"
    then have "?T \<in> set h" "?T \<notin> set d" by (auto simp: opening_inv_def count_if_zero_iff)
    with mulligan_inv [OF i] show "?T \<in> set h \<and> ?T \<notin> set d
           \<and> (\<exists>h' d'. mulligan target h d = Inr (h', d') \<and> opening_inv target h' d')"
      by blast
  qed
  from mulligan_loop_inv [OF o, of 0]
  have 3: "\<exists>h1 d1 k1. mulligan_loop target hand0 deck0 0 = Inr (h1, d1, k1)
           \<and> opening_inv target h1 d1" .
  from resolve_mulligans_ok [OF o] obtain h d k where
    rm: "resolve_mulligans target hand0 deck0 = Some (Inr (h, d, k))" and k: "k \<le> 3"
    and ld: "length d = 33 + k"
    and m: "?T \<in> set h" "count_if is_target_card h = 1" "count_if is_target_card d = 0"
    by blast
  from m have gi: "game_inv target (start_game h d)" by (rule start_game_inv)
  from m(3) have nd: "?T \<notin> set d" by (auto simp: count_if_zero_iff)
  have 5: "\<forall>i gi. game_at target (start_game h d) i = Some gi \<longrightarrow>
                 ?T \<in> set (hand gi) \<and> ?T \<notin> set (deck gi) \<and> ?T \<notin> set (board gi)"
  proof (intro allI impI)
    fix i g assume "game_at target (start_game h d) i = Some g"
    from game_at_props [OF this] gi have "game_inv target g" by blast
    then show "?T \<in> set (hand g) \<and> ?T \<notin> set (deck g) \<and> ?T \<notin> set (board g)"
      by (rule game_inv_target)
  qed
  from ld k have "length d \<le> 36" by simp
  from turn_loop_run [OF this, of target h] gi obtain ct g' where
    "turn_loop target (start_game h d) = Inr (ct, g')" "game_inv target g'" by blast
  with game_inv_target [of target g']
  have 6: "\<exists>ct g'. turn_loop target (start_game h d) = Inr (ct, g')
                 \<and> ?T \<in> set (hand g') \<and> ?T \<notin> set (deck g') \<and> ?T \<notin> set (board g')"
    by blast
  from o 2 3 rm m(1) nd 5 6 show ?thesis by blast
qed


theorem target_card_stays_in_hand_witness:
  "\<exists>target hand0 deck0.
      deal (\<lambda>i. 0) (\<lambda>k. k) 3 1 0 1 = Inr (target, hand0, deck0)
      \<and> opening_inv target hand0 deck0
      \<and> (\<exists>h1 d1 k1. mulligan_loop target hand0 deck0 0 = Inr (h1, d1, k1)
           \<and> opening_inv target h1 d1)
      \<and> (\<exists>h d k. resolve_mulligans target hand0 deck0 = Some (Inr (h, d, k))
           \<and> TargetCard target \<in> set h \<and> TargetCard target \<notin> set d
           \<and> (\<exists>ct g'. turn_loop target (start_game h d) = Inr (ct, g')
                 \<and> TargetCard target \<in> set (hand g') \<and> TargetCard target \<notin> set (deck g')
                 \<and> TargetCard target \<notin> set (board g')))"
proof -
  have "valid_input 3 1 0 1" by (simp add: valid_input_def)
  from deal_total [OF this, of "\<lambda>i. 0" "\<lambda>k. k"] obtain target hand0 deck0 where
    d: "deal (\<lambda>i. 0) (\<lambda>k. k) 3 1 0 1 = Inr (target, hand0, deck0)" by blast
  from target_card_stays_in_hand [OF d] d show ?thesis by blast
qed

section \<open>Trial Orchestrator: the two averages\<close>

lemma results_eq:
  "List.map_filter (\<lambda>outcome. case outcome of None \<Rightarrow> None | Some r \<Rightarrow> r)
      (map (\<lambda>i. worker (world i) mv on_pips off_pips n) ks)
   = List.map_filter
       (\<lambda>i. case simulate (fst (world i)) (snd (world i)) mv on_pips off_pips n of
               Some (Inr r) \<Rightarrow> Some r
             | _ \<Rightarrow> None) ks"
  by (induction ks) (auto simp: List.map_filter_simps worker_def split: option.splits sum.splits)

lemma series_mean_cast:
  "series_mean (map (\<lambda>r. map_option real (cast_turn r)) rs) = mean (map real (cast_turns rs))"
proof -
  have "List.map_filter (\<lambda>v. v) (map (\<lambda>r. map_option real (cast_turn r)) rs)
        = map real (List.map_filter cast_turn rs)"
    by (induction rs) (auto simp: List.map_filter_simps split: option.splits)
  then show ?thesis by (simp add: series_mean_def mean_def cast_turns_def Let_def)
qed

lemma series_mean_mulligan:
  "series_mean (map (\<lambda>r. Some (real (mulligan_count r))) rs)
   = mean (map (\<lambda>r. real (mulligan_count r)) rs)"
proof -
  have "List.map_filter (\<lambda>v. v) (map (\<lambda>r. Some (real (mulligan_count r))) rs)
        = map (\<lambda>r. real (mulligan_count r)) rs"
    by (induction rs) (auto simp: List.map_filter_simps)
  then show ?thesis by (simp add: series_mean_def mean_def Let_def)
qed

lemma two_trials:
  "simulate (\<lambda>j. 0) (\<lambda>k. k) 30 1 0 1 = Some (Inr (never_cast 2))"
  "simulate (\<lambda>j. j) (\<lambda>k. k) 30 1 0 1 = Some (Inr (never_cast 0))"
  by code_simp+

lemma upt_2: "[0..<2] = [0, Suc 0]"
  by (simp add: upt_rec numeral_2_eq_2)

lemma two_trials_results:
  "trial_results two_seeds 30 1 0 1 2 = [never_cast 2, never_cast 0]"
  by (simp add: trial_results_def upt_2 List.map_filter_simps two_seeds_def two_trials)

lemma two_trials_run:
  "run_simulations two_seeds 30 1 0 1 2
     = Some (Inr (Some \<lparr>agg_mana_value = 30, agg_on_color_pips = 1, agg_off_color_pips = 0,
          on_color_land_count = 1, off_color_land_count = 16, iterations = 2,
          average_cast_turn = None, average_mulligan_count = Some 1\<rparr>))"
  by (simp add: run_simulations_def Let_def upt_2 worker_def two_seeds_def two_trials
        List.map_filter_simps series_mean_def never_cast_def LAND_COUNT_def)

text \<open>
  C8. In every aggregate \<^verbatim>\<open>run_simulations\<close> produces, at least one trial was kept;
  \<open>average_cast_turn\<close> is the mean of the cast turns of the kept trials that cast the card
  (undefined when none did), and \<open>average_mulligan_count\<close> is the mean of the mulligan
  counts of all kept trials, those that never cast included.
\<close>

theorem averages_over_their_trials:
  assumes "run_simulations world mv on_pips off_pips n num_simulations = Some (Inr (Some a))"
  shows "trial_results world mv on_pips off_pips n num_simulations \<noteq> []
     \<and> average_cast_turn a
         = mean (map real (cast_turns (trial_results world mv on_pips off_pips n num_simulations)))
     \<and> average_mulligan_count a
         = mean (map (\<lambda>r. real (mulligan_count r))
                  (trial_results world mv on_pips off_pips n num_simulations))"
proof -
  let ?rs = "trial_results world mv on_pips off_pips n num_simulations"
  let ?out = "map (\<lambda>i. worker (world i) mv on_pips off_pips n) [0..<nat num_simulations]"
  have rs: "List.map_filter (\<lambda>outcome. case outcome of None \<Rightarrow> None | Some r \<Rightarrow> r) ?out = ?rs"
    unfolding trial_results_def by (rule results_eq)
  from assms have body:
    "(if list_ex (\<lambda>outcome. outcome = None) ?out then None
      else if length ?rs > 0 then
        Some (Inr (Some
          \<lparr>agg_mana_value = mv, agg_on_color_pips = on_pips, agg_off_color_pips = off_pips,
           on_color_land_count = n, off_color_land_count = LAND_COUNT - n,
           iterations = num_simulations,
           average_cast_turn = series_mean (map (\<lambda>r. map_option real (cast_turn r)) ?rs),
           average_mulligan_count = series_mean (map (\<lambda>r. Some (real (mulligan_count r))) ?rs)\<rparr>))
      else Some (Inr None)) = Some (Inr (Some a))"
    unfolding run_simulations_def Let_def rs by (simp split: if_splits)
  then have ne: "?rs \<noteq> []" and a: "a =
          \<lparr>agg_mana_value = mv, agg_on_color_pips = on_pips, agg_off_color_pips = off_pips,
           on_color_land_count = n, off_color_land_count = LAND_COUNT - n,
           iterations = num_simulations,
           average_cast_turn = series_mean (map (\<lambda>r. map_option real (cast_turn r)) ?rs),
           average_mulligan_count = series_mean (map (\<lambda>r. Some (real (mulligan_count r))) ?rs)\<rparr>"
    by (auto split: if_splits)
  from a have "average_cast_turn a = series_mean (map (\<lambda>r. map_option real (cast_turn r)) ?rs)"
    "average_mulligan_count a = series_mean (map (\<lambda>r. Some (real (mulligan_count r))) ?rs)"
    by simp_all
  with ne show ?thesis by (simp add: series_mean_cast series_mean_mulligan)
qed

theorem averages_over_their_trials_witness:
  "run_simulations two_seeds 30 1 0 1 2
     = Some (Inr (Some \<lparr>agg_mana_value = 30, agg_on_color_pips = 1, agg_off_color_pips = 0,
          on_color_land_count = 1, off_color_land_count = 16, iterations = 2,
          average_cast_turn = None, average_mulligan_count = Some 1\<rparr>))
   \<and> trial_results two_seeds 30 1 0 1 2 = [never_cast 2, never_cast 0]
   \<and> None = mean (map real (cast_turns (trial_results two_seeds 30 1 0 1 2)))
   \<and> Some 1 = mean (map (\<lambda>r. real (mulligan_count r)) (trial_results two_seeds 30 1 0 1 2))"
  using averages_over_their_trials [OF two_trials_run] two_trials_run two_trials_results
  by simp


end
